theory Spec2Isabelle
  imports Complex_Main "HOL-Library.AList" "HOL-Library.Multiset"
begin

section \<open>Character-level recurrent model: the notebook's preprocessing, trainer and generator\<close>

text \<open>
  The development embeds the code cells of \<^verbatim>\<open>Recurrent_Neural_Networks.ipynb\<close>.
  Python exceptions are values of \<open>py_error\<close>; a computation that may raise returns
  \<open>py_error + 'a\<close> with \<open>Inl\<close> for the exception.  Characters are an arbitrary type
  \<open>'c\<close> (one element per Python character), ids are natural numbers, and the floating
  point numbers of torch are an arbitrary type \<open>'f\<close> of which only \<open>0\<close> and \<open>+\<close> are
  used as symbols, without any law.  The numerical library functions (embedding, GRU,
  linear layer, loss, optimizer, samplers) are the fields of an environment record.
\<close>

datatype py_error =
  KeyError | IndexError | ValueError | ZeroDivisionError | RuntimeError | AttributeError

subsection \<open>Python containers\<close>

text \<open>
  A \<^verbatim>\<open>dict\<close> is an association list with distinct keys.  \<^verbatim>\<open>dict(pairs)\<close> stores the
  pairs from left to right, a later pair replacing the value of an equal earlier key
  (\<open>AList.update\<close> replaces in place, or appends a new key at the end).
\<close>

type_synonym ('k, 'v) dict = "('k \<times> 'v) list"

definition dict_of :: "('k \<times> 'v) list \<Rightarrow> ('k, 'v) dict" where
  "dict_of ps = fold (\<lambda>(k, v) d. AList.update k v d) ps []"

definition dict_keys :: "('k, 'v) dict \<Rightarrow> 'k list" where
  "dict_keys d = map fst d"

definition dict_values :: "('k, 'v) dict \<Rightarrow> 'v list" where
  "dict_values d = map snd d"

text \<open>\<^verbatim>\<open>d[k]\<close>: raises KeyError on a missing key.\<close>

definition dict_get :: "('k, 'v) dict \<Rightarrow> 'k \<Rightarrow> py_error + 'v" where
  "dict_get d k = (case map_of d k of None \<Rightarrow> Inl KeyError | Some v \<Rightarrow> Inr v)"

text \<open>
  \<^verbatim>\<open>list(set(xs))\<close>: the distinct elements of \<open>xs\<close> in the iteration order of the set,
  which Python leaves unspecified.  The order is a parameter: \<open>rank\<close> gives every element
  its place (elements of equal rank keep the order of first occurrence), so that every
  order of the distinct elements is obtained from some \<open>rank\<close>.
\<close>

definition list_set :: "('c \<Rightarrow> nat) \<Rightarrow> 'c list \<Rightarrow> 'c list" where
  "list_set rank xs = sort_key rank (remdups xs)"

text \<open>
  \<^verbatim>\<open>xs[i:j]\<close> with step 1: negative bounds count from the end, bounds are clamped to
  the length.
\<close>

definition py_slice :: "'a list \<Rightarrow> int \<Rightarrow> int \<Rightarrow> 'a list" where
  "py_slice xs i j =
     (let n = int (length xs);
          a = (if i < 0 then max (i + n) 0 else min i n);
          b = (if j < 0 then max (j + n) 0 else min j n)
      in take (nat (b - a)) (drop (nat a) xs))"

text \<open>
  \<^verbatim>\<open>np.roll(a, shift, axis=0)\<close> on a one-dimensional array: the element at position
  \<open>i\<close> moves to position \<open>(i + shift) mod n\<close>; an empty array is returned as it is.
\<close>

definition np_roll :: "'a list \<Rightarrow> int \<Rightarrow> 'a list" where
  "np_roll a shift =
     (if a = [] then []
      else let s = nat (shift mod int (length a))
           in drop (length a - s) a @ take (length a - s) a)"

text \<open>
  \<^verbatim>\<open>for i in range(n): body\<close> over a state, stopping at the first exception, is
  \<open>foldE body [0..<n]\<close>.
\<close>

fun foldE :: "('a \<Rightarrow> 's \<Rightarrow> py_error + 's) \<Rightarrow> 'a list \<Rightarrow> 's \<Rightarrow> py_error + 's" where
  "foldE body [] s = Inr s"
| "foldE body (i # is) s =
     (case body i s of Inl e \<Rightarrow> Inl e | Inr s' \<Rightarrow> foldE body is s')"

subsection \<open>Vocabulary (cell 2 of the notebook)\<close>

definition create_map :: "('c \<Rightarrow> nat) \<Rightarrow> 'c list \<Rightarrow> (nat, 'c) dict" where
  "create_map rank rawtxt =
     (let letters = list_set rank rawtxt;
          lettermap = dict_of (enumerate 0 letters)
      in lettermap)"

record 'c vocab =
  num_to_let :: "(nat, 'c) dict"
  let_to_num :: "('c, nat) dict"
  nchars :: nat

text \<open>
  The three assignments after \<^verbatim>\<open>create_map\<close>.  None of \<^verbatim>\<open>set\<close>, \<^verbatim>\<open>list\<close>,
  \<^verbatim>\<open>enumerate\<close>, \<^verbatim>\<open>dict\<close>, \<^verbatim>\<open>zip\<close> and \<^verbatim>\<open>len\<close> raises on a string, and the code
  has no \<^verbatim>\<open>raise\<close> of its own: the result is always \<open>Inr\<close>.
\<close>

definition build_vocab :: "('c \<Rightarrow> nat) \<Rightarrow> 'c list \<Rightarrow> py_error + 'c vocab" where
  "build_vocab rank rawtxt =
     (let n2l = create_map rank rawtxt;
          l2n = dict_of (zip (dict_values n2l) (dict_keys n2l))
      in Inr \<lparr>num_to_let = n2l, let_to_num = l2n, nchars = length n2l\<rparr>)"

subsection \<open>Encoded corpus (cell 3)\<close>

text \<open>
  \<^verbatim>\<open>maparray\<close> replaces the characters from left to right by their dictionary values;
  the first missing character raises KeyError.
\<close>

fun maparray :: "'a list \<Rightarrow> ('a, 'b) dict \<Rightarrow> py_error + 'b list" where
  "maparray [] mapdict = Inr []"
| "maparray (letter # txt) mapdict =
     (case dict_get mapdict letter of
        Inl e \<Rightarrow> Inl e
      | Inr v \<Rightarrow> (case maparray txt mapdict of Inl e \<Rightarrow> Inl e | Inr vs \<Rightarrow> Inr (v # vs)))"

text \<open>
  The pair \<open>(X, Y)\<close> of the notebook, as the arrays of lines 114 and 115; the conversion
  to \<^verbatim>\<open>torch.LongTensor\<close> keeps the values of an integer array.
\<close>

definition encode_corpus :: "'c vocab \<Rightarrow> 'c list \<Rightarrow> py_error + (nat list \<times> nat list)" where
  "encode_corpus voc rawtxt =
     (case maparray rawtxt (let_to_num voc) of
        Inl e \<Rightarrow> Inl e
      | Inr xs \<Rightarrow> Inr (xs, np_roll xs (- 1)))"

subsection \<open>The model (cell 4)\<close>

text \<open>The hidden state is a tensor of shape \<open>(n_layers, 1, hidden_size)\<close>.\<close>

type_synonym 'f hidden = "'f list list list"

record rnn =
  input_size :: nat
  hidden_size :: nat
  output_size :: nat
  n_layers :: nat

text \<open>
  The library functions the notebook calls.  \<open>'p\<close> is the learned state (the parameters
  of \<^verbatim>\<open>myrnn\<close> together with the moment estimates of the optimizer), \<open>'g\<close> the state
  of the random number generators.
  \<^item> \<open>encoder p x\<close>: the row of the embedding table for id \<open>x\<close>;
  \<^item> \<open>gru p e h\<close>: the output and the new hidden state of \<^verbatim>\<open>torch.nn.GRU\<close>;
  \<^item> \<open>decoder p output j\<close>: component \<open>j\<close> of \<^verbatim>\<open>torch.nn.Linear(hidden_size, output_size)\<close>;
  \<^item> \<open>criterion out y\<close>: \<^verbatim>\<open>CrossEntropyLoss\<close>;
  \<^item> \<open>argmax out\<close>: the index returned by \<^verbatim>\<open>out.data.max(1)\<close>;
  \<^item> \<open>optimize p h0 x y\<close>: \<^verbatim>\<open>zero_grad\<close>, \<^verbatim>\<open>backward\<close> and \<^verbatim>\<open>step\<close> on the
    cost of the unrolled chunk \<open>(x, y)\<close> that started from hidden state \<open>h0\<close>;
  \<^item> \<open>randint g low high\<close>: \<^verbatim>\<open>np.random.randint(low, high)\<close>, the discrete uniform
    draw from \<open>[low, high)\<close>;
  \<^item> \<open>multinomial g w\<close>: \<^verbatim>\<open>torch.multinomial(w, 1)[0]\<close>;
  \<^item> \<open>fdiv\<close>, \<open>fexp\<close>: elementwise division and exponential; \<open>divn\<close>: division of a
    float by a positive integer.
\<close>

record ('f, 'p, 'g) env =
  encoder :: "'p \<Rightarrow> nat \<Rightarrow> 'f list"
  gru :: "'p \<Rightarrow> 'f list \<Rightarrow> 'f hidden \<Rightarrow> 'f list \<times> 'f hidden"
  decoder :: "'p \<Rightarrow> 'f list \<Rightarrow> nat \<Rightarrow> 'f"
  criterion :: "'f list \<Rightarrow> nat \<Rightarrow> 'f"
  argmax :: "'f list \<Rightarrow> nat"
  optimize :: "'p \<Rightarrow> 'f hidden \<Rightarrow> nat list \<Rightarrow> nat list \<Rightarrow> 'p"
  randint :: "'g \<Rightarrow> int \<Rightarrow> int \<Rightarrow> py_error + (int \<times> 'g)"
  multinomial :: "'g \<Rightarrow> 'f list \<Rightarrow> py_error + (nat \<times> 'g)"
  fdiv :: "'f \<Rightarrow> 'f \<Rightarrow> 'f"
  fexp :: "'f \<Rightarrow> 'f"
  divn :: "'f \<Rightarrow> nat \<Rightarrow> 'f"

text \<open>What the libraries document of the two samplers and of the maximum.\<close>

definition randint_ok :: "('f, 'p, 'g) env \<Rightarrow> bool" where
  "randint_ok env \<longleftrightarrow>
     (\<forall>g low high.
        case randint env g low high of
          Inl e \<Rightarrow> e = ValueError \<and> high \<le> low
        | Inr (k, g') \<Rightarrow> low \<le> k \<and> k < high)"

definition multinomial_ok :: "('f, 'p, 'g) env \<Rightarrow> bool" where
  "multinomial_ok env \<longleftrightarrow>
     (\<forall>g w.
        case multinomial env g w of
          Inl e \<Rightarrow> e = RuntimeError
        | Inr (i, g') \<Rightarrow> i < length w)"

definition argmax_ok :: "('f, 'p, 'g) env \<Rightarrow> bool" where
  "argmax_ok env \<longleftrightarrow> (\<forall>w. w \<noteq> [] \<longrightarrow> argmax env w < length w)"

text \<open>
  A sampler that accepts every non-empty weight vector (the hypothesis under which the
  generator is shown to return).
\<close>

definition multinomial_accepts :: "('f, 'p, 'g) env \<Rightarrow> bool" where
  "multinomial_accepts env \<longleftrightarrow>
     (\<forall>g w. w \<noteq> [] \<longrightarrow> (\<exists>k g'. multinomial env g w = Inr (k, g') \<and> k < length w))"

text \<open>\<^verbatim>\<open>myrnn = RNN(nchars, 512, nchars, 1)\<close>\<close>

definition myrnn :: "nat \<Rightarrow> rnn" where
  "myrnn n = \<lparr>input_size = n, hidden_size = 512, output_size = n, n_layers = 1\<rparr>"

definition init_hidden :: "rnn \<Rightarrow> ('f::zero) hidden" where
  "init_hidden r = replicate (n_layers r) (replicate 1 (replicate (hidden_size r) 0))"

text \<open>
  \<^verbatim>\<open>RNN.forward\<close>: the embedding has \<open>input_size\<close> rows and rejects any other id; the
  linear layer produces \<open>output_size\<close> logits.
\<close>

definition forward ::
  "('f, 'p, 'g) env \<Rightarrow> rnn \<Rightarrow> 'p \<Rightarrow> nat \<Rightarrow> 'f hidden \<Rightarrow> py_error + ('f list \<times> 'f hidden)" where
  "forward env r p x hidden =
     (if x < input_size r then
        (let e = encoder env p x;
             (output, hidden') = gru env p e hidden;
             out = map (decoder env p output) [0..<output_size r]
         in Inr (out, hidden'))
      else Inl IndexError)"

subsection \<open>Trainer (cells 5 and 6)\<close>

definition random_chunk ::
  "('f, 'p, 'g) env \<Rightarrow> nat list \<Rightarrow> nat list \<Rightarrow> 'g \<Rightarrow> nat
     \<Rightarrow> py_error + ((nat list \<times> nat list) \<times> 'g)" where
  "random_chunk env X Y g chunk_size =
     (case randint env g 0 (int (length X) - int chunk_size) of
        Inl e \<Rightarrow> Inl e
      | Inr (k, g') \<Rightarrow>
          Inr ((py_slice X k (k + int chunk_size), py_slice Y k (k + int chunk_size)), g'))"

text \<open>
  The variables of \<^verbatim>\<open>train\<close> that the loops read and write, with the learned state and
  the generator state.
\<close>

record ('f, 'c, 'p, 'g) tstate =
  st_model :: 'p
  st_rng :: 'g
  st_h :: "'f hidden"
  st_cost :: 'f
  st_totcost :: 'f
  st_generated :: "'c list"

text \<open>The body of the loop over the positions of a chunk (lines 227 to 234).\<close>

definition unroll_step ::
  "('f::{zero,plus}, 'p, 'g) env \<Rightarrow> rnn \<Rightarrow> 'c vocab \<Rightarrow> nat list \<Rightarrow> nat list \<Rightarrow> nat
     \<Rightarrow> ('f, 'c, 'p, 'g) tstate \<Rightarrow> py_error + ('f, 'c, 'p, 'g) tstate" where
  "unroll_step env r voc x y i st =
     (if length x \<le> i then Inl IndexError
      else case forward env r (st_model st) (x ! i) (st_h st) of
        Inl e \<Rightarrow> Inl e
      | Inr (out, h') \<Rightarrow>
          (case dict_get (num_to_let voc) (argmax env out) of
             Inl e \<Rightarrow> Inl e
           | Inr letter \<Rightarrow>
               if length y \<le> i then Inl IndexError
               else Inr (st\<lparr>st_h := h',
                            st_generated := st_generated st @ [letter],
                            st_cost := st_cost st + criterion env out (y ! i)\<rparr>)))"

text \<open>
  The body of the loop over the chunks of an epoch (lines 221 to 241).  With
  \<open>chunk_size = 0\<close> the variable \<^verbatim>\<open>cost\<close> is still the integer \<open>0\<close> after the loop and
  \<^verbatim>\<open>cost.backward()\<close> raises AttributeError.
\<close>

definition train_chunk ::
  "('f::{zero,plus}, 'p, 'g) env \<Rightarrow> rnn \<Rightarrow> 'c vocab \<Rightarrow> nat list \<Rightarrow> nat list \<Rightarrow> nat
     \<Rightarrow> ('f, 'c, 'p, 'g) tstate \<Rightarrow> py_error + ('f, 'c, 'p, 'g) tstate" where
  "train_chunk env r voc X Y chunk_size st =
     (let st1 = st\<lparr>st_h := init_hidden r, st_cost := 0\<rparr>
      in case random_chunk env X Y (st_rng st1) chunk_size of
        Inl e \<Rightarrow> Inl e
      | Inr ((x, y), g') \<Rightarrow>
          (case foldE (unroll_step env r voc x y) [0..<chunk_size] (st1\<lparr>st_rng := g'\<rparr>) of
             Inl e \<Rightarrow> Inl e
           | Inr st2 \<Rightarrow>
               if chunk_size = 0 then Inl AttributeError
               else Inr (st2\<lparr>st_model := optimize env (st_model st2) (st_h st1) x y,
                             st_totcost := st_totcost st2 + st_cost st2\<rparr>)))"

text \<open>
  One pass of the loop over the epochs (lines 217 to 242).  \<^verbatim>\<open>len(X)//chunk_size\<close>
  raises ZeroDivisionError for \<open>chunk_size = 0\<close>, and so does the final division when the
  quotient is \<open>0\<close>.  \<open>chunk_size\<close> is a sequence length, a natural number.
\<close>

definition run_epoch ::
  "('f::{zero,plus}, 'p, 'g) env \<Rightarrow> rnn \<Rightarrow> 'c vocab \<Rightarrow> nat list \<Rightarrow> nat list \<Rightarrow> nat
     \<Rightarrow> ('f, 'c, 'p, 'g) tstate \<Rightarrow> py_error + ('f, 'c, 'p, 'g) tstate" where
  "run_epoch env r voc X Y chunk_size st =
     (let st0 = st\<lparr>st_totcost := 0, st_generated := []\<rparr>
      in if chunk_size = 0 then Inl ZeroDivisionError
         else case foldE (\<lambda>_. train_chunk env r voc X Y chunk_size)
                     [0..<length X div chunk_size] st0 of
           Inl e \<Rightarrow> Inl e
         | Inr st1 \<Rightarrow>
             if length X div chunk_size = 0 then Inl ZeroDivisionError
             else Inr (st1\<lparr>st_totcost :=
                              divn env (st_totcost st1) (length X div chunk_size)\<rparr>))"

text \<open>
  \<^verbatim>\<open>train(no_epochs)\<close>: the epochs in sequence, each appending its average to the list
  \<^verbatim>\<open>costs\<close>.
\<close>

fun train ::
  "('f::{zero,plus}, 'p, 'g) env \<Rightarrow> rnn \<Rightarrow> 'c vocab \<Rightarrow> nat list \<Rightarrow> nat list \<Rightarrow> nat \<Rightarrow> nat
     \<Rightarrow> ('f, 'c, 'p, 'g) tstate \<times> 'f list \<Rightarrow> py_error + (('f, 'c, 'p, 'g) tstate \<times> 'f list)" where
  "train env r voc X Y chunk_size 0 (st, costs) = Inr (st, costs)"
| "train env r voc X Y chunk_size (Suc no_epochs) (st, costs) =
     (case run_epoch env r voc X Y chunk_size st of
        Inl e \<Rightarrow> Inl e
      | Inr st' \<Rightarrow> train env r voc X Y chunk_size no_epochs (st', costs @ [st_totcost st']))"

text \<open>
  For the statement about the average: the values of \<^verbatim>\<open>cost\<close> at the end of the first
  \<open>n\<close> chunk bodies run in sequence from a state (up to the first exception).
\<close>

fun chunk_losses ::
  "('f::{zero,plus}, 'p, 'g) env \<Rightarrow> rnn \<Rightarrow> 'c vocab \<Rightarrow> nat list \<Rightarrow> nat list \<Rightarrow> nat \<Rightarrow> nat
     \<Rightarrow> ('f, 'c, 'p, 'g) tstate \<Rightarrow> 'f list" where
  "chunk_losses env r voc X Y chunk_size 0 st = []"
| "chunk_losses env r voc X Y chunk_size (Suc n) st =
     (case train_chunk env r voc X Y chunk_size st of
        Inl e \<Rightarrow> []
      | Inr st' \<Rightarrow> st_cost st' # chunk_losses env r voc X Y chunk_size n st')"

subsection \<open>Generator (cell 7)\<close>

record ('f, 'c, 'g) gstate =
  gs_x :: nat
  gs_h :: "'f hidden"
  gs_generated :: "'c list"
  gs_rng :: 'g

text \<open>The body of the priming loop (line 322): the logits are dropped.\<close>

definition prime_step ::
  "('f, 'p, 'g) env \<Rightarrow> rnn \<Rightarrow> 'p \<Rightarrow> nat list \<Rightarrow> nat \<Rightarrow> 'f hidden \<Rightarrow> py_error + 'f hidden" where
  "prime_step env r p x i h =
     (if length x \<le> i then Inl IndexError
      else case forward env r p (x ! i) h of
        Inl e \<Rightarrow> Inl e
      | Inr (out, h') \<Rightarrow> Inr h')"

text \<open>The body of the sampling loop (lines 327 to 335).\<close>

definition sample_step ::
  "('f, 'p, 'g) env \<Rightarrow> rnn \<Rightarrow> 'c vocab \<Rightarrow> 'p \<Rightarrow> 'f \<Rightarrow> nat
     \<Rightarrow> ('f, 'c, 'g) gstate \<Rightarrow> py_error + ('f, 'c, 'g) gstate" where
  "sample_step env r voc p temperature i st =
     (case forward env r p (gs_x st) (gs_h st) of
        Inl e \<Rightarrow> Inl e
      | Inr (out, h') \<Rightarrow>
          (let out_dist = map (\<lambda>v. fexp env (fdiv env v temperature)) out
           in case multinomial env (gs_rng st) out_dist of
             Inl e \<Rightarrow> Inl e
           | Inr (sample, g') \<Rightarrow>
               (case dict_get (num_to_let voc) sample of
                  Inl e \<Rightarrow> Inl e
                | Inr pred_char \<Rightarrow>
                    Inr \<lparr>gs_x = sample, gs_h = h',
                         gs_generated = gs_generated st @ [pred_char],
                         gs_rng = g'\<rparr>)))"

text \<open>
  \<^verbatim>\<open>generate\<close> from line 317 on, for a given value \<open>h\<close> of the hidden state.  An empty
  prime raises at \<^verbatim>\<open>x[-1]\<close> at the latest.  \<^verbatim>\<open>range(str_len)\<close> is empty for a
  negative \<open>str_len\<close>.
\<close>

definition generate_from ::
  "('f, 'p, 'g) env \<Rightarrow> rnn \<Rightarrow> 'c vocab \<Rightarrow> 'p \<Rightarrow> 'f hidden \<Rightarrow> 'g \<Rightarrow> 'c list \<Rightarrow> int \<Rightarrow> 'f
     \<Rightarrow> py_error + ('c list \<times> 'g)" where
  "generate_from env r voc p h g prime_str str_len temperature =
     (case maparray prime_str (let_to_num voc) of
        Inl e \<Rightarrow> Inl e
      | Inr x \<Rightarrow>
          (case foldE (prime_step env r p x) [0..<length x] h of
             Inl e \<Rightarrow> Inl e
           | Inr h1 \<Rightarrow>
               if x = [] then Inl IndexError
               else (case foldE (sample_step env r voc p temperature) [0..<nat str_len]
                            \<lparr>gs_x = last x, gs_h = h1, gs_generated = prime_str, gs_rng = g\<rparr> of
                       Inl e \<Rightarrow> Inl e
                     | Inr st \<Rightarrow> Inr (gs_generated st, gs_rng st))))"

text \<open>\<^verbatim>\<open>generate(prime_str, str_len, temperature)\<close>\<close>

definition generate ::
  "('f::zero, 'p, 'g) env \<Rightarrow> rnn \<Rightarrow> 'c vocab \<Rightarrow> 'p \<Rightarrow> 'g \<Rightarrow> 'c list \<Rightarrow> int \<Rightarrow> 'f
     \<Rightarrow> py_error + ('c list \<times> 'g)" where
  "generate env r voc p g prime_str str_len temperature =
     (let h = init_hidden r
      in generate_from env r voc p h g prime_str str_len temperature)"

subsection \<open>An instance of the environment\<close>

text \<open>
  A small environment on which the definitions can be evaluated: floats are real
  numbers, the embedding of an id is the id, the recurrent layer returns the embedding
  as output and as hidden state, logit \<open>j\<close> is \<open>j\<close>, every loss is \<open>1\<close>, the optimizer
  changes nothing, and the generator state is a counter from which both samplers take
  their draw.
\<close>

definition demo_env :: "(real, unit, nat) env" where
  "demo_env =
     \<lparr>encoder = (\<lambda>p x. [real x]),
      gru = (\<lambda>p e h. (e, [[e]])),
      decoder = (\<lambda>p output j. real j),
      criterion = (\<lambda>out y. 1),
      argmax = (\<lambda>w. 0),
      optimize = (\<lambda>p h0 x y. p),
      randint = (\<lambda>g low high.
        if high \<le> low then Inl ValueError else Inr (low + int g mod (high - low), Suc g)),
      multinomial = (\<lambda>g w. if w = [] then Inl RuntimeError else Inr (g mod length w, Suc g)),
      fdiv = (\<lambda>a b. a / b),
      fexp = exp,
      divn = (\<lambda>a n. a / real n)\<rparr>"

definition ab_vocab :: "char vocab" where
  "ab_vocab = \<lparr>num_to_let = [(0, CHR ''a''), (1, CHR ''b'')],
               let_to_num = [(CHR ''a'', 0), (CHR ''b'', 1)], nchars = 2\<rparr>"

text \<open>A state of the trainer with arbitrary left-over values in its variables.\<close>

definition demo_state :: "(real, char, unit, nat) tstate" where
  "demo_state = \<lparr>st_model = (), st_rng = 0, st_h = [[[7]]], st_cost = 5, st_totcost = 9,
                  st_generated = ''zz''\<rparr>"

section \<open>Properties\<close>

subsection \<open>Dictionaries and the vocabulary\<close>

lemma update_fresh: "k \<notin> fst ` set al \<Longrightarrow> AList.update k v al = al @ [(k, v)]"
  by (induction al) auto

lemma fold_update_distinct:
  "distinct (map fst (acc @ ps)) \<Longrightarrow> fold (\<lambda>(k, v) d. AList.update k v d) ps acc = acc @ ps"
proof (induction ps arbitrary: acc)
  case Nil
  then show ?case by simp
next
  case (Cons kv ps)
  obtain k v where kv: "kv = (k, v)" by (cases kv)
  from Cons.prems kv have fresh: "k \<notin> fst ` set acc" by auto
  from Cons.prems kv have d: "distinct (map fst ((acc @ [(k, v)]) @ ps))" by auto
  show ?case using Cons.IH [OF d] by (simp add: kv update_fresh [OF fresh])
qed

lemma dict_of_distinct: "distinct (map fst ps) \<Longrightarrow> dict_of ps = ps"
  using fold_update_distinct [of "[]" ps] by (simp add: dict_of_def)

lemma distinct_list_set: "distinct (list_set rank xs)"
  by (simp add: list_set_def)

lemma set_list_set: "set (list_set rank xs) = set xs"
  by (simp add: list_set_def)

lemma length_list_set: "length (list_set rank xs) = card (set xs)"
  using distinct_card [OF distinct_list_set, of rank xs] by (simp add: set_list_set)

text \<open>
  Every listing of the distinct elements is the value of \<open>list_set\<close> for some \<open>rank\<close>
  (the position in the listing): quantifying over \<open>rank\<close> covers every iteration order
  of the set.
\<close>

lemma index_in_distinct:
  assumes "distinct ys" and "n < length ys"
  shows "length (takeWhile (\<lambda>y. y \<noteq> ys ! n) ys) = n"
proof -
  have "takeWhile (\<lambda>y. y \<noteq> ys ! n) ys = take n ys"
  proof (rule takeWhile_eq_take_P_nth)
    fix i
    assume "i < n" "i < length ys"
    then show "ys ! i \<noteq> ys ! n" using assms by (simp add: nth_eq_iff_index_eq)
  next
    show "\<not> ys ! n \<noteq> ys ! n" by simp
  qed
  then show ?thesis using assms(2) by simp
qed

lemma index_map_distinct:
  assumes "distinct ys"
  shows "map (\<lambda>c. length (takeWhile (\<lambda>y. y \<noteq> c) ys)) ys = [0..<length ys]"
  by (rule nth_equalityI) (simp_all add: index_in_distinct [OF assms])

lemma list_set_any_order:
  assumes "distinct ys" and "set ys = set xs"
  shows "list_set (\<lambda>c. length (takeWhile (\<lambda>y. y \<noteq> c) ys)) xs = ys"
proof -
  let ?rank = "\<lambda>c. length (takeWhile (\<lambda>y. y \<noteq> c) ys)"
  have m: "mset (remdups xs) = mset ys"
    using assms by (simp add: set_eq_iff_mset_eq_distinct [symmetric])
  have "sorted (map ?rank ys)" by (simp add: index_map_distinct [OF assms(1)])
  moreover have "inj_on ?rank (set (remdups xs))"
  proof (rule inj_onI)
    fix a b
    assume "a \<in> set (remdups xs)" "b \<in> set (remdups xs)" and eq: "?rank a = ?rank b"
    then have "a \<in> set ys" "b \<in> set ys" using assms(2) by simp_all
    then obtain i j where ij: "i < length ys" "ys ! i = a" "j < length ys" "ys ! j = b"
      by (metis in_set_conv_nth)
    with eq index_in_distinct [OF assms(1)] have "i = j" by metis
    with ij show "a = b" by simp
  qed
  ultimately show ?thesis
    unfolding list_set_def by (intro sort_key_inj_key_eq [OF m])
qed

lemma create_map_enumerate: "create_map rank rawtxt = enumerate 0 (list_set rank rawtxt)"
  by (simp add: create_map_def dict_of_distinct)

lemma build_vocab_eq:
  "build_vocab rank rawtxt =
     Inr \<lparr>num_to_let = enumerate 0 (list_set rank rawtxt),
          let_to_num = zip (list_set rank rawtxt) [0..<length (list_set rank rawtxt)],
          nchars = length (list_set rank rawtxt)\<rparr>"
  by (simp add: build_vocab_def create_map_enumerate dict_values_def dict_keys_def
      dict_of_distinct distinct_list_set)

lemma map_of_enumerate0:
  "map_of (enumerate 0 xs) i = (if i < length xs then Some (xs ! i) else None)"
proof (cases "i < length xs")
  case True
  then show ?thesis
    using map_of_zip_nth [of "[0..<length xs]" xs i] by (simp add: enumerate_eq_zip)
next
  case False
  then show ?thesis
    using map_of_zip_is_None [of "[0..<length xs]" xs i] by (simp add: enumerate_eq_zip)
qed

lemma dict_get_enumerate:
  "dict_get (enumerate 0 xs) i = (if i < length xs then Inr (xs ! i) else Inl KeyError)"
  by (simp add: dict_get_def map_of_enumerate0)

lemma map_of_zip_upt:
  assumes "distinct xs"
  shows "map_of (zip xs [0..<length xs]) c = Some i \<longleftrightarrow> i < length xs \<and> xs ! i = c"
proof
  assume "map_of (zip xs [0..<length xs]) c = Some i"
  then have "(c, i) \<in> set (zip xs [0..<length xs])" by (rule map_of_SomeD)
  then obtain j where "j < length xs" "xs ! j = c" "[0..<length xs] ! j = i"
    by (auto simp: set_zip)
  then show "i < length xs \<and> xs ! i = c" by auto
next
  assume "i < length xs \<and> xs ! i = c"
  then show "map_of (zip xs [0..<length xs]) c = Some i"
    using map_of_zip_nth [of xs "[0..<length xs]" i] assms by auto
qed

lemma dict_get_zip_upt:
  assumes "distinct xs"
  shows "dict_get (zip xs [0..<length xs]) c = Inr i \<longleftrightarrow> i < length xs \<and> xs ! i = c"
  using map_of_zip_upt [OF assms, of c i]
  by (auto simp: dict_get_def split: option.splits)

lemma dict_get_zip_upt_mem:
  assumes "distinct xs" "c \<in> set xs"
  shows "\<exists>i. dict_get (zip xs [0..<length xs]) c = Inr i \<and> i < length xs \<and> xs ! i = c"
proof -
  from assms(2) obtain i where "i < length xs" "xs ! i = c" by (auto simp: in_set_conv_nth)
  then show ?thesis using dict_get_zip_upt [OF assms(1), of c i] by auto
qed

lemma dict_get_zip_upt_Inl:
  assumes "dict_get (zip xs [0..<length xs]) c = Inl e"
  shows "c \<notin> set xs \<and> e = KeyError"
  using assms map_of_zip_is_None [of xs "[0..<length xs]" c]
  by (auto simp: dict_get_def split: option.splits)

lemma maparray_in_vocab:
  assumes "distinct ls" "set cs \<subseteq> set ls"
  shows "\<exists>ids. maparray cs (zip ls [0..<length ls]) = Inr ids \<and> length ids = length cs
           \<and> (\<forall>k < length cs. ids ! k < length ls \<and> ls ! (ids ! k) = cs ! k)"
  using assms(2)
proof (induction cs)
  case Nil
  then show ?case by simp
next
  case (Cons c cs)
  then obtain ids where ids: "maparray cs (zip ls [0..<length ls]) = Inr ids"
      "length ids = length cs"
      "\<forall>k < length cs. ids ! k < length ls \<and> ls ! (ids ! k) = cs ! k"
    by auto
  from Cons.prems have "c \<in> set ls" by simp
  from dict_get_zip_upt_mem [OF assms(1) this] obtain i where
    i: "dict_get (zip ls [0..<length ls]) c = Inr i" "i < length ls" "ls ! i = c" by blast
  have "\<forall>k < length (c # cs). (i # ids) ! k < length ls \<and> ls ! ((i # ids) ! k) = (c # cs) ! k"
    using ids(3) i(2,3) by (auto simp: nth_Cons split: nat.splits)
  then show ?case using ids(1,2) i(1) by simp
qed

lemma np_roll_minus1: "np_roll xs (- 1) = rotate1 xs"
proof (cases xs)
  case Nil
  then show ?thesis by (simp add: np_roll_def)
next
  case (Cons a as)
  have "(- 1) mod int (length (a # as)) = int (length as)"
    by (simp add: zmod_minus1)
  then show ?thesis using Cons by (simp add: np_roll_def Let_def)
qed

lemma np_roll_minus1_nth:
  assumes "i < length xs"
  shows "np_roll xs (- 1) ! i = xs ! ((i + 1) mod length xs)"
  using nth_rotate1 [OF assms] by (simp add: np_roll_minus1)

lemma length_np_roll: "length (np_roll xs s) = length xs"
  by (auto simp: np_roll_def Let_def)


lemma build_vocab_abab:
  "build_vocab (\<lambda>c::char. 0) ''abab'' =
     Inr \<lparr>num_to_let = [(0, CHR ''a''), (1, CHR ''b'')],
          let_to_num = [(CHR ''a'', 0), (CHR ''b'', 1)], nchars = 2\<rparr>"
  by (simp add: build_vocab_def create_map_def list_set_def dict_of_def dict_values_def
      dict_keys_def enumerate_eq_zip upt_rec)


text \<open>
  Claim C6.  The maps \<open>let_to_num\<close> and \<open>num_to_let\<close> built from a corpus are inverse to
  each other: every character of the corpus has an id that decodes to the character,
  an id decodes to a character exactly when the character encodes to the id, the ids are
  \<open>0, ..., n - 1\<close> for \<open>n\<close> the number of distinct characters of the corpus, the decoded
  characters are those of the corpus, and \<open>nchars\<close> is that number \<open>n\<close>.  This holds for
  every iteration order \<open>rank\<close> of the character set.
\<close>

theorem vocab_maps_inverse:
  assumes "build_vocab rank rawtxt = Inr voc"
  shows "(\<forall>c \<in> set rawtxt. \<exists>i. dict_get (let_to_num voc) c = Inr i
              \<and> dict_get (num_to_let voc) i = Inr c)
       \<and> (\<forall>i c. dict_get (num_to_let voc) i = Inr c \<longleftrightarrow> dict_get (let_to_num voc) c = Inr i)
       \<and> dict_keys (num_to_let voc) = [0..<card (set rawtxt)]
       \<and> set (dict_values (num_to_let voc)) = set rawtxt
       \<and> nchars voc = card (set rawtxt)"
proof -
  let ?ls = "list_set rank rawtxt"
  have d: "distinct ?ls" by (rule distinct_list_set)
  from assms have n2l: "num_to_let voc = enumerate 0 ?ls"
    and l2n: "let_to_num voc = zip ?ls [0..<length ?ls]"
    and n: "nchars voc = length ?ls"
    by (auto simp: build_vocab_eq)
  have inv: "dict_get (num_to_let voc) i = Inr c \<longleftrightarrow> dict_get (let_to_num voc) c = Inr i" for i c
    using dict_get_zip_upt [OF d, of c i] by (auto simp: n2l l2n dict_get_enumerate)
  have "\<exists>i. dict_get (let_to_num voc) c = Inr i \<and> dict_get (num_to_let voc) i = Inr c"
    if "c \<in> set rawtxt" for c
  proof -
    from that have "c \<in> set ?ls" by (simp add: set_list_set)
    from dict_get_zip_upt_mem [OF d this] obtain i where
      "dict_get (let_to_num voc) c = Inr i" by (auto simp: l2n)
    then show ?thesis using inv by blast
  qed
  moreover have "dict_keys (num_to_let voc) = [0..<card (set rawtxt)]"
    by (simp add: n2l dict_keys_def length_list_set)
  moreover have "set (dict_values (num_to_let voc)) = set rawtxt"
    by (simp add: n2l dict_values_def set_list_set)
  moreover have "nchars voc = card (set rawtxt)"
    by (simp add: n length_list_set)
  ultimately show ?thesis using inv by blast
qed

theorem vocab_maps_inverse_witness:
  "build_vocab (\<lambda>c::char. 0) ''abab'' =
     Inr \<lparr>num_to_let = [(0, CHR ''a''), (1, CHR ''b'')],
          let_to_num = [(CHR ''a'', 0), (CHR ''b'', 1)], nchars = 2\<rparr>
   \<and> (\<exists>i. dict_get [(CHR ''a'', 0), (CHR ''b'', 1::nat)] CHR ''b'' = Inr i
          \<and> dict_get [(0::nat, CHR ''a''), (1, CHR ''b'')] i = Inr CHR ''b'')
   \<and> card (set ''abab'') = 2"
  using vocab_maps_inverse [OF build_vocab_abab] by (auto simp: build_vocab_abab)


text \<open>
  Claim C8 as the code has it.  The code has no check of the corpus and no
  EmptyCorpusError: the construction of the vocabulary returns for every corpus, the
  empty one too, with as many ids as the corpus has distinct characters.
\<close>

theorem build_vocab_never_fails:
  "\<exists>voc. build_vocab rank rawtxt = Inr voc \<and> nchars voc = card (set rawtxt)
      \<and> length (num_to_let voc) = card (set rawtxt)
      \<and> length (let_to_num voc) = card (set rawtxt)"
  by (simp add: build_vocab_eq length_list_set)


text \<open>
  Against claim C8 as stated: on the empty corpus the construction returns the empty
  maps and \<open>nchars = 0\<close>; it does not fail.
\<close>

theorem build_vocab_empty_corpus:
  "build_vocab (\<lambda>c::char. 0) [] = Inr \<lparr>num_to_let = [], let_to_num = [], nchars = 0\<rparr>"
  by (simp add: build_vocab_def create_map_def list_set_def dict_of_def dict_values_def
      dict_keys_def)


subsection \<open>The encoded corpus\<close>

text \<open>
  Claim C2.  For a non-empty corpus and the vocabulary built from it, the encoding
  succeeds, \<open>X\<close> and \<open>Y\<close> have the length of the corpus, and
  \<open>Y[i] = X[(i + 1) mod len(X)]\<close> at every index \<open>i\<close>.
\<close>

theorem encoded_corpus_shift:
  assumes "rawtxt \<noteq> []" and "build_vocab rank rawtxt = Inr voc"
  shows "\<exists>X Y. encode_corpus voc rawtxt = Inr (X, Y) \<and> length X = length rawtxt
           \<and> length X = length Y
           \<and> (\<forall>i < length X. Y ! i = X ! ((i + 1) mod length X))"
proof -
  let ?ls = "list_set rank rawtxt"
  from assms(2) have l2n: "let_to_num voc = zip ?ls [0..<length ?ls]"
    by (auto simp: build_vocab_eq)
  from maparray_in_vocab [OF distinct_list_set, of rawtxt rank]
  obtain X where X: "maparray rawtxt (let_to_num voc) = Inr X" "length X = length rawtxt"
    by (auto simp: l2n set_list_set)
  have "encode_corpus voc rawtxt = Inr (X, np_roll X (- 1))"
    by (simp add: encode_corpus_def X(1))
  moreover have "\<forall>i < length X. np_roll X (- 1) ! i = X ! ((i + 1) mod length X)"
    by (simp add: np_roll_minus1_nth)
  ultimately show ?thesis using X(2) by (simp add: length_np_roll)
qed

theorem encoded_corpus_shift_witness:
  "''abab'' \<noteq> []
   \<and> build_vocab (\<lambda>c::char. 0) ''abab'' =
       Inr \<lparr>num_to_let = [(0, CHR ''a''), (1, CHR ''b'')],
            let_to_num = [(CHR ''a'', 0), (CHR ''b'', 1)], nchars = 2\<rparr>
   \<and> (\<exists>X Y. encode_corpus \<lparr>num_to_let = [(0, CHR ''a''), (1, CHR ''b'')],
                  let_to_num = [(CHR ''a'', 0), (CHR ''b'', 1)], nchars = 2\<rparr> ''abab'' = Inr (X, Y)
          \<and> length X = 4 \<and> length Y = 4 \<and> Y ! 3 = X ! 0)"
proof -
  have ne: "''abab'' \<noteq> []" by simp
  from encoded_corpus_shift [OF ne build_vocab_abab] obtain X Y where
    "encode_corpus \<lparr>num_to_let = [(0, CHR ''a''), (1, CHR ''b'')],
        let_to_num = [(CHR ''a'', 0), (CHR ''b'', 1)], nchars = 2\<rparr> ''abab'' = Inr (X, Y)"
    "length X = length ''abab''" "length X = length Y"
    "\<forall>i < length X. Y ! i = X ! ((i + 1) mod length X)"
    by blast
  then show ?thesis using ne build_vocab_abab by auto
qed

subsection \<open>The instance of the environment meets the library contracts\<close>

lemma demo_randint_ok: "randint_ok demo_env"
proof -
  have "low + int g mod (high - low) < high \<and> low \<le> low + int g mod (high - low)"
    if "\<not> high \<le> low" for low high :: int and g :: nat
    using that pos_mod_bound [of "high - low" "int g"] pos_mod_sign [of "high - low" "int g"]
    by linarith
  then show ?thesis by (simp add: randint_ok_def demo_env_def)
qed

lemma demo_multinomial_ok: "multinomial_ok demo_env"
  by (simp add: multinomial_ok_def demo_env_def)

lemma demo_argmax_ok: "argmax_ok demo_env"
  by (simp add: argmax_ok_def demo_env_def)

subsection \<open>Loops\<close>

lemma foldE_append:
  "foldE body (is @ js) s = (case foldE body is s of Inl e \<Rightarrow> Inl e | Inr s' \<Rightarrow> foldE body js s')"
  by (induction "is" arbitrary: s) (auto split: sum.splits)

lemma foldE_invariant:
  assumes "foldE body is s = Inr s'" and "P s"
    and "\<And>i s s'. i \<in> set is \<Longrightarrow> P s \<Longrightarrow> body i s = Inr s' \<Longrightarrow> P s'"
  shows "P s'"
  using assms
proof (induction "is" arbitrary: s)
  case Nil
  then show ?case by simp
next
  case (Cons i "is")
  from Cons.prems(1) obtain s1 where s1: "body i s = Inr s1" "foldE body is s1 = Inr s'"
    by (auto split: sum.splits)
  have "P s1" using Cons.prems(2,3) s1(1) by auto
  then show ?case using Cons.IH [OF s1(2)] Cons.prems(3) by auto
qed

lemma foldE_error:
  assumes "foldE body is s = Inl e" and "P s"
    and "\<And>i s s'. i \<in> set is \<Longrightarrow> P s \<Longrightarrow> body i s = Inr s' \<Longrightarrow> P s'"
    and "\<And>i s e. i \<in> set is \<Longrightarrow> P s \<Longrightarrow> body i s = Inl e \<Longrightarrow> Q e"
  shows "Q e"
  using assms
proof (induction "is" arbitrary: s)
  case Nil
  then show ?case by simp
next
  case (Cons i "is")
  show ?case
  proof (cases "body i s")
    case (Inl e')
    with Cons.prems(1) have "body i s = Inl e" by simp
    then show ?thesis using Cons.prems(4) [of i s e] Cons.prems(2) by simp
  next
    case (Inr s1)
    then have run: "foldE body is s1 = Inl e" using Cons.prems(1) by simp
    have inv: "P s1" using Cons.prems(3) [of i s s1] Cons.prems(2) Inr by simp
    have step: "\<And>j t t'. j \<in> set is \<Longrightarrow> P t \<Longrightarrow> body j t = Inr t' \<Longrightarrow> P t'"
      using Cons.prems(3) by (meson list.set_intros(2))
    have err: "\<And>j t e. j \<in> set is \<Longrightarrow> P t \<Longrightarrow> body j t = Inl e \<Longrightarrow> Q e"
      using Cons.prems(4) by (meson list.set_intros(2))
    show ?thesis by (rule Cons.IH [OF run inv step err])
  qed
qed

lemma foldE_total:
  assumes "P s"
    and "\<And>i s. i \<in> set is \<Longrightarrow> P s \<Longrightarrow> \<exists>s'. body i s = Inr s' \<and> P s'"
  shows "\<exists>s'. foldE body is s = Inr s' \<and> P s'"
  using assms
proof (induction "is" arbitrary: s)
  case Nil
  then show ?case by simp
next
  case (Cons i "is")
  from Cons.prems obtain s1 where s1: "body i s = Inr s1" "P s1" by fastforce
  from Cons.IH [OF s1(2)] Cons.prems(2) obtain s' where "foldE body is s1 = Inr s'" "P s'"
    by auto
  then show ?case using s1(1) by auto
qed

lemma foldE_map: "foldE body (map f is) s = foldE (\<lambda>i. body (f i)) is s"
  by (induction "is" arbitrary: s) (auto split: sum.splits)

lemma foldE_cong:
  assumes "\<And>i s. i \<in> set is \<Longrightarrow> f i s = g i s"
  shows "foldE f is s = foldE g is s"
  using assms by (induction "is" arbitrary: s) (auto split: sum.splits)

lemma foldE_nth:
  assumes "\<And>i s. i < length xs \<Longrightarrow> f i s = g (xs ! i) s"
  shows "foldE f [0..<length xs] s = foldE g xs s"
proof -
  have "foldE g xs s = foldE g (map ((!) xs) [0..<length xs]) s" by (simp add: map_nth)
  also have "\<dots> = foldE (\<lambda>i. g (xs ! i)) [0..<length xs] s" by (rule foldE_map)
  also have "\<dots> = foldE f [0..<length xs] s" by (rule foldE_cong) (simp add: assms)
  finally show ?thesis by simp
qed


subsection \<open>Vocabulary facts used by the trainer and the generator\<close>

lemma built_vocab_facts:
  assumes "build_vocab rank rawtxt = Inr voc"
  shows "\<exists>ls. distinct ls \<and> set ls = set rawtxt \<and> num_to_let voc = enumerate 0 ls
           \<and> let_to_num voc = zip ls [0..<length ls] \<and> nchars voc = length ls"
  using assms
  by (intro exI [of _ "list_set rank rawtxt"])
     (auto simp: build_vocab_eq distinct_list_set set_list_set)

lemma decode_in_range:
  assumes "build_vocab rank rawtxt = Inr voc" and "i < nchars voc"
  shows "\<exists>c. dict_get (num_to_let voc) i = Inr c \<and> c \<in> set rawtxt"
proof -
  from built_vocab_facts [OF assms(1)] obtain ls where
    ls: "set ls = set rawtxt" "num_to_let voc = enumerate 0 ls" "nchars voc = length ls"
    by blast
  from assms(2) ls(3) have i: "i < length ls" by simp
  then have "ls ! i \<in> set ls" by (rule nth_mem)
  then have "ls ! i \<in> set rawtxt" using ls(1) by simp
  moreover have "dict_get (num_to_let voc) i = Inr (ls ! i)"
    using i by (simp add: ls(2) dict_get_enumerate)
  ultimately show ?thesis by blast
qed

lemma decode_Inr:
  assumes "build_vocab rank rawtxt = Inr voc" and "dict_get (num_to_let voc) i = Inr c"
  shows "c \<in> set rawtxt \<and> i < nchars voc"
proof -
  from built_vocab_facts [OF assms(1)] obtain ls where
    ls: "set ls = set rawtxt" "num_to_let voc = enumerate 0 ls" "nchars voc = length ls"
    by blast
  from assms(2) have i: "i < length ls" "ls ! i = c"
    by (auto simp: ls(2) dict_get_enumerate split: if_splits)
  from i(1) have "ls ! i \<in> set ls" by (rule nth_mem)
  then have "c \<in> set rawtxt" using ls(1) i(2) by simp
  then show ?thesis using i(1) ls(3) by simp
qed

lemma decode_Inl:
  assumes "build_vocab rank rawtxt = Inr voc" and "dict_get (num_to_let voc) i = Inl e"
  shows "\<not> i < nchars voc"
  using decode_in_range [OF assms(1), of i] assms(2) by auto

lemma maparray_length: "maparray cs d = Inr ids \<Longrightarrow> length ids = length cs"
  by (induction cs arbitrary: ids) (auto split: sum.splits)

lemma maparray_Inl: "maparray cs d = Inl e \<Longrightarrow> e = KeyError"
  by (induction cs) (auto simp: dict_get_def split: sum.splits option.splits)

lemma maparray_built:
  assumes "build_vocab rank rawtxt = Inr voc" and "set cs \<subseteq> set rawtxt"
  shows "\<exists>ids. maparray cs (let_to_num voc) = Inr ids \<and> length ids = length cs
           \<and> (\<forall>a \<in> set ids. a < nchars voc)"
proof -
  from built_vocab_facts [OF assms(1)] obtain ls where
    ls: "distinct ls" "set ls = set rawtxt" "let_to_num voc = zip ls [0..<length ls]"
      "nchars voc = length ls"
    by blast
  from maparray_in_vocab [OF ls(1), of cs] assms(2) ls(2) obtain ids where
    ids: "maparray cs (zip ls [0..<length ls]) = Inr ids" "length ids = length cs"
      "\<forall>k < length cs. ids ! k < length ls \<and> ls ! (ids ! k) = cs ! k"
    by auto
  have "\<forall>a \<in> set ids. a < nchars voc"
    using ids(2,3) ls(4) by (auto simp: in_set_conv_nth)
  then show ?thesis using ids(1,2) ls(3) by simp
qed

subsection \<open>The cell\<close>

lemma forward_Inr:
  assumes "forward env r p x h = Inr (out, h')"
  shows "length out = output_size r \<and> x < input_size r"
  using assms by (auto simp: forward_def Let_def split: if_splits prod.splits)

lemma forward_in_range:
  assumes "x < input_size r"
  shows "\<exists>out h'. forward env r p x h = Inr (out, h') \<and> length out = output_size r"
  using assms by (auto simp: forward_def Let_def split: prod.splits)

lemma forward_Inl:
  assumes "forward env r p x h = Inl e"
  shows "\<not> x < input_size r \<and> e = IndexError"
  using assms by (auto simp: forward_def Let_def split: if_splits prod.splits)

lemma forward_hidden:
  assumes "x < input_size r"
  shows "forward env r p x h =
           Inr (map (decoder env p (fst (gru env p (encoder env p x) h))) [0..<output_size r],
                snd (gru env p (encoder env p x) h))"
  using assms by (auto simp: forward_def Let_def split: prod.splits)

subsection \<open>The generator\<close>

lemma sample_step_Inr:
  assumes "sample_step env r voc p t i st = Inr st'"
  shows "\<exists>c. gs_generated st' = gs_generated st @ [c]
           \<and> dict_get (num_to_let voc) (gs_x st') = Inr c"
  using assms
  by (auto simp: sample_step_def Let_def split: sum.splits prod.splits)

lemma sample_step_Inl:
  assumes "multinomial_ok env" and "build_vocab rank rawtxt = Inr voc"
    and "gs_x st < nchars voc"
    and "sample_step env (myrnn (nchars voc)) voc p t i st = Inl e"
  shows "e = RuntimeError"
proof -
  let ?r = "myrnn (nchars voc)"
  from forward_in_range [of "gs_x st" ?r env p "gs_h st"] assms(3) obtain out h' where
    f: "forward env ?r p (gs_x st) (gs_h st) = Inr (out, h')" "length out = nchars voc"
    by (auto simp: myrnn_def)
  let ?w = "map (\<lambda>v. fexp env (fdiv env v t)) out"
  show ?thesis
  proof (cases "multinomial env (gs_rng st) ?w")
    case (Inl e')
    with assms(1) have "e' = RuntimeError"
      by (auto simp: multinomial_ok_def split: sum.splits dest!: spec [of _ "gs_rng st"] spec [of _ ?w])
    with Inl f(1) assms(4) show ?thesis by (simp add: sample_step_def)
  next
    case (Inr a)
    obtain k g' where a: "a = (k, g')" by (cases a)
    with Inr assms(1) have "k < length ?w"
      by (auto simp: multinomial_ok_def split: sum.splits dest!: spec [of _ "gs_rng st"] spec [of _ ?w])
    then have "k < nchars voc" using f(2) by simp
    from decode_in_range [OF assms(2) this] obtain c where
      "dict_get (num_to_let voc) k = Inr c" by blast
    with Inr a f(1) assms(4) show ?thesis by (simp add: sample_step_def)
  qed
qed


lemma sample_step_built:
  assumes "build_vocab rank rawtxt = Inr voc"
    and "sample_step env r voc p t i st = Inr st'"
  shows "\<exists>c. gs_generated st' = gs_generated st @ [c] \<and> c \<in> set rawtxt
           \<and> gs_x st' < nchars voc"
  using sample_step_Inr [OF assms(2)] decode_Inr [OF assms(1)] by blast

lemma sample_step_total:
  assumes "build_vocab rank rawtxt = Inr voc" and "gs_x st < nchars voc"
    and "multinomial_accepts env"
  shows "\<exists>st'. sample_step env (myrnn (nchars voc)) voc p t i st = Inr st'"
proof -
  let ?r = "myrnn (nchars voc)"
  from forward_in_range [of "gs_x st" ?r env p "gs_h st"] assms(2) obtain out h' where
    f: "forward env ?r p (gs_x st) (gs_h st) = Inr (out, h')" "length out = nchars voc"
    by (auto simp: myrnn_def)
  let ?w = "map (\<lambda>v. fexp env (fdiv env v t)) out"
  from f(2) assms(2) have "?w \<noteq> []" by auto
  with assms(3) obtain k g' where
    k: "multinomial env (gs_rng st) ?w = Inr (k, g')" "k < length ?w"
    unfolding multinomial_accepts_def by blast
  then have "k < nchars voc" using f(2) by simp
  from decode_in_range [OF assms(1) this] obtain c where
    "dict_get (num_to_let voc) k = Inr c" by blast
  with k(1) f(1) show ?thesis by (simp add: sample_step_def)
qed

lemma sample_loop_generated:
  assumes "foldE (sample_step env r voc p t) is st = Inr st'"
  shows "\<exists>suffix. gs_generated st' = gs_generated st @ suffix \<and> length suffix = length is"
  using assms
proof (induction "is" arbitrary: st)
  case Nil
  then show ?case by simp
next
  case (Cons i "is")
  from Cons.prems obtain st1 where
    st1: "sample_step env r voc p t i st = Inr st1"
      "foldE (sample_step env r voc p t) is st1 = Inr st'"
    by (auto split: sum.splits)
  from sample_step_Inr [OF st1(1)] obtain c where
    c: "gs_generated st1 = gs_generated st @ [c]" by blast
  from Cons.IH [OF st1(2)] obtain suffix where
    "gs_generated st' = gs_generated st1 @ suffix" "length suffix = length is" by blast
  then have "gs_generated st' = gs_generated st @ (c # suffix)"
      "length (c # suffix) = length (i # is)"
    using c by simp_all
  then show ?case by blast
qed

lemma prime_step_Inl: "prime_step env r p x i h = Inl e \<Longrightarrow> e = IndexError"
  by (auto simp: prime_step_def dest: forward_Inl split: if_splits sum.splits)

lemma prime_loop_Inl:
  assumes "foldE (prime_step env r p x) is h = Inl e"
  shows "e = IndexError"
  by (rule foldE_error [OF assms, where P = "\<lambda>_. True"]) (auto dest: prime_step_Inl)

lemma prime_loop_fold:
  assumes "\<forall>a \<in> set x. a < input_size r"
  shows "foldE (prime_step env r p x) [0..<length x] h =
           Inr (fold (\<lambda>a h. snd (gru env p (encoder env p a) h)) x h)"
proof -
  let ?g = "\<lambda>a h. case forward env r p a h of Inl e \<Rightarrow> Inl e | Inr (out, h') \<Rightarrow> Inr h'"
  have "foldE (prime_step env r p x) [0..<length x] h = foldE ?g x h"
    by (rule foldE_nth) (simp add: prime_step_def)
  also have "foldE ?g x h = Inr (fold (\<lambda>a h. snd (gru env p (encoder env p a) h)) x h)"
    using assms by (induction x arbitrary: h) (simp_all add: forward_hidden)
  finally show ?thesis .
qed

lemma generate_Inr:
  assumes "generate env r voc p g prime str_len t = Inr (s, g')"
  shows "\<exists>x h1 st. maparray prime (let_to_num voc) = Inr x \<and> x \<noteq> []
           \<and> foldE (prime_step env r p x) [0..<length x] (init_hidden r) = Inr h1
           \<and> foldE (sample_step env r voc p t) [0..<nat str_len]
                \<lparr>gs_x = last x, gs_h = h1, gs_generated = prime, gs_rng = g\<rparr> = Inr st
           \<and> s = gs_generated st \<and> g' = gs_rng st"
  using assms
  by (auto simp: generate_def generate_from_def split: sum.splits if_splits)

lemma generate_in_vocab:
  assumes "build_vocab rank rawtxt = Inr voc" and "prime \<noteq> []" and "set prime \<subseteq> set rawtxt"
  shows "\<exists>x. maparray prime (let_to_num voc) = Inr x \<and> x \<noteq> [] \<and> last x < nchars voc
           \<and> length x = length prime \<and> (\<forall>a \<in> set x. a < nchars voc)
           \<and> generate env (myrnn (nchars voc)) voc p g prime str_len t =
               (case foldE (sample_step env (myrnn (nchars voc)) voc p t) [0..<nat str_len]
                       \<lparr>gs_x = last x,
                        gs_h = fold (\<lambda>a h. snd (gru env p (encoder env p a) h)) x
                                 (init_hidden (myrnn (nchars voc))),
                        gs_generated = prime, gs_rng = g\<rparr> of
                  Inl e \<Rightarrow> Inl e
                | Inr st \<Rightarrow> Inr (gs_generated st, gs_rng st))"
proof -
  from maparray_built [OF assms(1,3)] obtain x where
    x: "maparray prime (let_to_num voc) = Inr x" "length x = length prime"
      "\<forall>a \<in> set x. a < nchars voc"
    by blast
  from x(2) assms(2) have ne: "x \<noteq> []" by auto
  then have l: "last x < nchars voc" using x(3) by simp
  have "\<forall>a \<in> set x. a < input_size (myrnn (nchars voc))" using x(3) by (simp add: myrnn_def)
  note pl = prime_loop_fold [OF this]
  have "generate env (myrnn (nchars voc)) voc p g prime str_len t =
          (case foldE (sample_step env (myrnn (nchars voc)) voc p t) [0..<nat str_len]
                  \<lparr>gs_x = last x,
                   gs_h = fold (\<lambda>a h. snd (gru env p (encoder env p a) h)) x
                            (init_hidden (myrnn (nchars voc))),
                   gs_generated = prime, gs_rng = g\<rparr> of
             Inl e \<Rightarrow> Inl e
           | Inr st \<Rightarrow> Inr (gs_generated st, gs_rng st))"
    using ne by (simp add: generate_def generate_from_def pl x(1))
  then show ?thesis using x ne l by blast
qed


lemma demo_multinomial_accepts: "multinomial_accepts demo_env"
  by (simp add: multinomial_accepts_def demo_env_def)

lemma sample_loop_total:
  fixes env :: "('f, 'p, 'g) env" and st :: "('f, 'c, 'g) gstate"
  assumes "build_vocab rank rawtxt = Inr voc" and "gs_x st < nchars voc"
    and "multinomial_accepts env"
  shows "\<exists>st'. foldE (sample_step env (myrnn (nchars voc)) voc p t) is st = Inr st'
           \<and> gs_x st' < nchars voc"
proof (rule foldE_total [where P = "\<lambda>st. gs_x st < nchars voc"])
  show "gs_x st < nchars voc" by (rule assms(2))
next
  fix i and st :: "('f, 'c, 'g) gstate"
  assume "gs_x st < nchars voc"
  from sample_step_total [OF assms(1) this assms(3)] obtain st' where
    st': "sample_step env (myrnn (nchars voc)) voc p t i st = Inr st'" by blast
  from sample_step_built [OF assms(1) st'] have "gs_x st' < nchars voc" by blast
  with st' show "\<exists>st'. sample_step env (myrnn (nchars voc)) voc p t i st = Inr st'
      \<and> gs_x st' < nchars voc" by blast
qed

lemma sample_loop_Inl:
  fixes env :: "('f, 'p, 'g) env" and st :: "('f, 'c, 'g) gstate"
  assumes "multinomial_ok env" and "build_vocab rank rawtxt = Inr voc"
    and "gs_x st < nchars voc"
    and "foldE (sample_step env (myrnn (nchars voc)) voc p t) is st = Inl e"
  shows "e = RuntimeError"
proof (rule foldE_error [OF assms(4), where P = "\<lambda>st. gs_x st < nchars voc"])
  show "gs_x st < nchars voc" by (rule assms(3))
next
  fix i and st st' :: "('f, 'c, 'g) gstate"
  assume "sample_step env (myrnn (nchars voc)) voc p t i st = Inr st'"
  from sample_step_built [OF assms(2) this] show "gs_x st' < nchars voc" by blast
next
  fix i e and st :: "('f, 'c, 'g) gstate"
  assume "gs_x st < nchars voc" "sample_step env (myrnn (nchars voc)) voc p t i st = Inl e"
  then show "e = RuntimeError" by (rule sample_step_Inl [OF assms(1,2)])
qed

lemma sample_loop_in_vocab:
  assumes "build_vocab rank rawtxt = Inr voc"
    and "foldE (sample_step env r voc p t) is st = Inr st'"
  shows "\<exists>suffix. gs_generated st' = gs_generated st @ suffix \<and> set suffix \<subseteq> set rawtxt"
  using assms(2)
proof (induction "is" arbitrary: st)
  case Nil
  then show ?case by simp
next
  case (Cons i "is")
  from Cons.prems obtain st1 where
    st1: "sample_step env r voc p t i st = Inr st1"
      "foldE (sample_step env r voc p t) is st1 = Inr st'"
    by (auto split: sum.splits)
  from sample_step_built [OF assms(1) st1(1)] obtain c where
    c: "gs_generated st1 = gs_generated st @ [c]" "c \<in> set rawtxt" by blast
  from Cons.IH [OF st1(2)] obtain suffix where
    "gs_generated st' = gs_generated st1 @ suffix" "set suffix \<subseteq> set rawtxt" by blast
  then have "gs_generated st' = gs_generated st @ (c # suffix)"
      "set (c # suffix) \<subseteq> set rawtxt"
    using c by simp_all
  then show ?case by blast
qed

lemma generate_Inl:
  assumes "multinomial_ok env" and "build_vocab rank rawtxt = Inr voc"
    and "prime \<noteq> []" and "set prime \<subseteq> set rawtxt"
    and "generate env (myrnn (nchars voc)) voc p g prime str_len t = Inl e"
  shows "e = RuntimeError"
proof -
  from generate_in_vocab [OF assms(2,3,4), of env p g str_len t] obtain x where
    x: "last x < nchars voc"
      "generate env (myrnn (nchars voc)) voc p g prime str_len t =
         (case foldE (sample_step env (myrnn (nchars voc)) voc p t) [0..<nat str_len]
                 \<lparr>gs_x = last x,
                  gs_h = fold (\<lambda>a h. snd (gru env p (encoder env p a) h)) x
                           (init_hidden (myrnn (nchars voc))),
                  gs_generated = prime, gs_rng = g\<rparr> of
            Inl e \<Rightarrow> Inl e
          | Inr st \<Rightarrow> Inr (gs_generated st, gs_rng st))"
    by blast
  let ?st = "\<lparr>gs_x = last x,
               gs_h = fold (\<lambda>a h. snd (gru env p (encoder env p a) h)) x
                        (init_hidden (myrnn (nchars voc))),
               gs_generated = prime, gs_rng = g\<rparr>"
  from assms(5) x(2) have
    "foldE (sample_step env (myrnn (nchars voc)) voc p t) [0..<nat str_len] ?st = Inl e"
    by (auto split: sum.splits)
  moreover have "gs_x ?st < nchars voc" using x(1) by simp
  ultimately show ?thesis using sample_loop_Inl [OF assms(1,2)] by blast
qed

lemma generate_total:
  assumes "multinomial_accepts env" and "build_vocab rank rawtxt = Inr voc"
    and "prime \<noteq> []" and "set prime \<subseteq> set rawtxt"
  shows "\<exists>s g'. generate env (myrnn (nchars voc)) voc p g prime str_len t = Inr (s, g')"
proof -
  from generate_in_vocab [OF assms(2,3,4), of env p g str_len t] obtain x where
    x: "last x < nchars voc"
      "generate env (myrnn (nchars voc)) voc p g prime str_len t =
         (case foldE (sample_step env (myrnn (nchars voc)) voc p t) [0..<nat str_len]
                 \<lparr>gs_x = last x,
                  gs_h = fold (\<lambda>a h. snd (gru env p (encoder env p a) h)) x
                           (init_hidden (myrnn (nchars voc))),
                  gs_generated = prime, gs_rng = g\<rparr> of
            Inl e \<Rightarrow> Inl e
          | Inr st \<Rightarrow> Inr (gs_generated st, gs_rng st))"
    by blast
  let ?st = "\<lparr>gs_x = last x,
               gs_h = fold (\<lambda>a h. snd (gru env p (encoder env p a) h)) x
                        (init_hidden (myrnn (nchars voc))),
               gs_generated = prime, gs_rng = g\<rparr>"
  have "gs_x ?st < nchars voc" using x(1) by simp
  from sample_loop_total [OF assms(2) this assms(1), of p t "[0..<nat str_len]"]
  obtain st' where
    "foldE (sample_step env (myrnn (nchars voc)) voc p t) [0..<nat str_len] ?st = Inr st'"
    by blast
  then show ?thesis using x(2) by simp
qed

lemma generate_shape:
  assumes "generate env r voc p g prime str_len t = Inr (s, g')"
  shows "length s = length prime + nat str_len \<and> take (length prime) s = prime"
proof -
  from generate_Inr [OF assms] obtain x h1 st where
    st: "foldE (sample_step env r voc p t) [0..<nat str_len]
           \<lparr>gs_x = last x, gs_h = h1, gs_generated = prime, gs_rng = g\<rparr> = Inr st"
      "s = gs_generated st"
    by blast
  from sample_loop_generated [OF st(1)] obtain suffix where
    "gs_generated st = prime @ suffix" "length suffix = nat str_len" by auto
  then show ?thesis using st(2) by simp
qed

lemma demo_generate:
  "generate demo_env (myrnn 2) ab_vocab () 0 ''a'' 2 t = Inr (''aab'', 2)"
  by (simp add: generate_def generate_from_def ab_vocab_def dict_get_def prime_step_def
      sample_step_def forward_def myrnn_def demo_env_def init_hidden_def upt_rec)

lemma build_vocab_ab: "build_vocab (\<lambda>c::char. 0) ''abab'' = Inr ab_vocab"
  by (simp add: build_vocab_abab ab_vocab_def)

subsection \<open>Claims about the generator\<close>

text \<open>
  Claim C9.  For a non-empty prime whose characters all occur in the corpus of the
  vocabulary and a length \<open>str_len \<ge> 0\<close>: whatever string \<open>generate\<close> returns has length
  \<open>len(prime) + str_len\<close> and starts with the prime; and \<open>generate\<close> does return a string
  when the sampler accepts every non-empty weight vector.
\<close>

theorem generate_length_and_prefix:
  assumes "build_vocab rank rawtxt = Inr voc" and "prime \<noteq> []"
    and "set prime \<subseteq> set rawtxt" and "0 \<le> str_len"
  shows "(\<forall>s g'. generate env (myrnn (nchars voc)) voc p g prime str_len t = Inr (s, g')
            \<longrightarrow> int (length s) = int (length prime) + str_len
                \<and> take (length prime) s = prime)
       \<and> (multinomial_accepts env
            \<longrightarrow> (\<exists>s g'. generate env (myrnn (nchars voc)) voc p g prime str_len t = Inr (s, g')))"
proof (intro conjI allI impI)
  fix s g'
  assume "generate env (myrnn (nchars voc)) voc p g prime str_len t = Inr (s, g')"
  from generate_shape [OF this] assms(4)
  show "int (length s) = int (length prime) + str_len" and "take (length prime) s = prime"
    by simp_all
next
  assume "multinomial_accepts env"
  from generate_total [OF this assms(1,2,3)]
  show "\<exists>s g'. generate env (myrnn (nchars voc)) voc p g prime str_len t = Inr (s, g')" .
qed

theorem generate_length_and_prefix_witness:
  "build_vocab (\<lambda>c::char. 0) ''abab'' = Inr ab_vocab \<and> ''a'' \<noteq> []
   \<and> set ''a'' \<subseteq> set ''abab'' \<and> (0::int) \<le> 2 \<and> multinomial_accepts demo_env
   \<and> generate demo_env (myrnn (nchars ab_vocab)) ab_vocab () 0 ''a'' 2 (3 / 4) = Inr (''aab'', 2)
   \<and> int (length ''aab'') = int (length ''a'') + 2 \<and> take (length ''a'') ''aab'' = ''a''"
proof -
  have h: "''a'' \<noteq> []" "set ''a'' \<subseteq> set ''abab''" "(0::int) \<le> 2" by simp_all
  have n: "nchars ab_vocab = 2" by (simp add: ab_vocab_def)
  have run: "generate demo_env (myrnn (nchars ab_vocab)) ab_vocab () 0 ''a'' 2 (3 / 4)
               = Inr (''aab'', 2)"
    by (simp only: n demo_generate)
  from generate_length_and_prefix [OF build_vocab_ab h, of demo_env "()" 0 "3 / 4"] run
  have "int (length ''aab'') = int (length ''a'') + 2 \<and> take (length ''a'') ''aab'' = ''a''"
    by blast
  then show ?thesis using build_vocab_ab h demo_multinomial_accepts run by blast
qed

text \<open>
  Claim C10.  With a sampler that returns an index of its weight vector, the vocabulary
  built from a corpus and the model \<open>RNN(nchars, 512, nchars, 1)\<close>: a sampling step from an
  in-range input id either fails in the sampler or looks the sampled id up with success,
  the id being below \<open>nchars\<close> and the appended character one of the corpus; so
  \<open>generate\<close> on an in-vocabulary prime never raises KeyError, and all characters it
  appends to the prime are characters of the corpus.
\<close>

theorem sampled_ids_in_vocabulary:
  fixes env :: "('f::zero, 'p, 'g) env" and voc :: "'c vocab"
  assumes "multinomial_ok env" and "build_vocab rank rawtxt = Inr voc"
    and "set prime \<subseteq> set rawtxt"
  shows "(\<forall>i (st :: ('f, 'c, 'g) gstate). gs_x st < nchars voc \<longrightarrow>
            (case sample_step env (myrnn (nchars voc)) voc p t i st of
               Inl e \<Rightarrow> e = RuntimeError
             | Inr st' \<Rightarrow> gs_x st' < nchars voc
                  \<and> (\<exists>c. c \<in> set rawtxt \<and> dict_get (num_to_let voc) (gs_x st') = Inr c
                         \<and> gs_generated st' = gs_generated st @ [c])))
       \<and> generate env (myrnn (nchars voc)) voc p g prime str_len t \<noteq> Inl KeyError
       \<and> (\<forall>s g'. generate env (myrnn (nchars voc)) voc p g prime str_len t = Inr (s, g')
            \<longrightarrow> set (drop (length prime) s) \<subseteq> set rawtxt)"
proof (intro conjI allI impI)
  fix i and st :: "('f, 'c, 'g) gstate"
  assume x: "gs_x st < nchars voc"
  show "case sample_step env (myrnn (nchars voc)) voc p t i st of
          Inl e \<Rightarrow> e = RuntimeError
        | Inr st' \<Rightarrow> gs_x st' < nchars voc
             \<and> (\<exists>c. c \<in> set rawtxt \<and> dict_get (num_to_let voc) (gs_x st') = Inr c
                    \<and> gs_generated st' = gs_generated st @ [c])"
  proof (cases "sample_step env (myrnn (nchars voc)) voc p t i st")
    case (Inl e)
    from sample_step_Inl [OF assms(1,2) x this] Inl show ?thesis by simp
  next
    case (Inr st')
    from sample_step_Inr [OF Inr] obtain c where
      c: "gs_generated st' = gs_generated st @ [c]"
        "dict_get (num_to_let voc) (gs_x st') = Inr c" by blast
    from decode_Inr [OF assms(2) c(2)] c Inr show ?thesis by auto
  qed
next
  show "generate env (myrnn (nchars voc)) voc p g prime str_len t \<noteq> Inl KeyError"
  proof (cases "prime = []")
    case True
    then show ?thesis by (simp add: generate_def generate_from_def)
  next
    case False
    show ?thesis
    proof
      assume "generate env (myrnn (nchars voc)) voc p g prime str_len t = Inl KeyError"
      from generate_Inl [OF assms(1,2) False assms(3) this] show False by simp
    qed
  qed
next
  fix s g'
  assume run: "generate env (myrnn (nchars voc)) voc p g prime str_len t = Inr (s, g')"
  from generate_Inr [OF run] obtain x h1 st where
    st: "foldE (sample_step env (myrnn (nchars voc)) voc p t) [0..<nat str_len]
           \<lparr>gs_x = last x, gs_h = h1, gs_generated = prime, gs_rng = g\<rparr> = Inr st"
      "s = gs_generated st"
    by blast
  from sample_loop_in_vocab [OF assms(2) st(1)] obtain suffix where
    "gs_generated st = prime @ suffix" "set suffix \<subseteq> set rawtxt" by auto
  then show "set (drop (length prime) s) \<subseteq> set rawtxt" using st(2) by simp
qed

theorem sampled_ids_in_vocabulary_witness:
  "multinomial_ok demo_env \<and> build_vocab (\<lambda>c::char. 0) ''abab'' = Inr ab_vocab
   \<and> set ''a'' \<subseteq> set ''abab''
   \<and> generate demo_env (myrnn (nchars ab_vocab)) ab_vocab () 0 ''a'' 2 (3 / 4) = Inr (''aab'', 2)
   \<and> generate demo_env (myrnn (nchars ab_vocab)) ab_vocab () 0 ''a'' 2 (3 / 4) \<noteq> Inl KeyError
   \<and> set (drop (length ''a'') ''aab'') \<subseteq> set ''abab''"
proof -
  have h: "set ''a'' \<subseteq> set ''abab''" by simp
  have n: "nchars ab_vocab = 2" by (simp add: ab_vocab_def)
  have run: "generate demo_env (myrnn (nchars ab_vocab)) ab_vocab () 0 ''a'' 2 (3 / 4)
               = Inr (''aab'', 2)"
    by (simp only: n demo_generate)
  from sampled_ids_in_vocabulary [OF demo_multinomial_ok build_vocab_ab h, of "()" "3 / 4" 0 2] run
  have "generate demo_env (myrnn (nchars ab_vocab)) ab_vocab () 0 ''a'' 2 (3 / 4) \<noteq> Inl KeyError
      \<and> set (drop (length ''a'') ''aab'') \<subseteq> set ''abab''"
    by blast
  then show ?thesis using demo_multinomial_ok build_vocab_ab h run by blast
qed

text \<open>
  Claim C7 as the code has it.  \<open>generate\<close> does not look at the sign of the temperature
  and has no InvalidTemperatureError.  For every temperature, a non-empty in-vocabulary
  prime and a sampler that returns an index or raises: the only failure of \<open>generate\<close> is
  the RuntimeError of the sampler; with a length \<open>str_len \<le> 0\<close> it returns the prime;
  and it returns a string whenever the sampler accepts the weights.
\<close>

theorem generate_any_temperature:
  assumes "multinomial_ok env" and "build_vocab rank rawtxt = Inr voc"
    and "prime \<noteq> []" and "set prime \<subseteq> set rawtxt"
  shows "(\<forall>e. generate env (myrnn (nchars voc)) voc p g prime str_len temperature = Inl e
            \<longrightarrow> e = RuntimeError)
       \<and> (str_len \<le> 0
            \<longrightarrow> generate env (myrnn (nchars voc)) voc p g prime str_len temperature = Inr (prime, g))
       \<and> (multinomial_accepts env
            \<longrightarrow> (\<exists>s g'. generate env (myrnn (nchars voc)) voc p g prime str_len temperature
                          = Inr (s, g')))"
proof (intro conjI allI impI)
  fix e
  assume "generate env (myrnn (nchars voc)) voc p g prime str_len temperature = Inl e"
  then show "e = RuntimeError" by (rule generate_Inl [OF assms])
next
  assume "str_len \<le> 0"
  then have "[0..<nat str_len] = []" by simp
  with generate_in_vocab [OF assms(2,3,4), of env p g str_len temperature]
  show "generate env (myrnn (nchars voc)) voc p g prime str_len temperature = Inr (prime, g)"
    by auto
next
  assume "multinomial_accepts env"
  from generate_total [OF this assms(2,3,4)]
  show "\<exists>s g'. generate env (myrnn (nchars voc)) voc p g prime str_len temperature = Inr (s, g')" .
qed

theorem generate_any_temperature_witness:
  "multinomial_ok demo_env \<and> build_vocab (\<lambda>c::char. 0) ''abab'' = Inr ab_vocab
   \<and> ''a'' \<noteq> [] \<and> set ''a'' \<subseteq> set ''abab'' \<and> multinomial_accepts demo_env
   \<and> (- 1 :: real) \<le> 0
   \<and> generate demo_env (myrnn (nchars ab_vocab)) ab_vocab () 0 ''a'' 0 (- 1) = Inr (''a'', 0)
   \<and> (\<exists>s g'. generate demo_env (myrnn (nchars ab_vocab)) ab_vocab () 0 ''a'' 2 (- 1) = Inr (s, g'))"
proof -
  have h: "''a'' \<noteq> []" "set ''a'' \<subseteq> set ''abab''" by simp_all
  from generate_any_temperature [OF demo_multinomial_ok build_vocab_ab h, of "()" 0 0 "- 1"]
  have a: "generate demo_env (myrnn (nchars ab_vocab)) ab_vocab () 0 ''a'' 0 (- 1) = Inr (''a'', 0)"
    by simp
  from generate_any_temperature [OF demo_multinomial_ok build_vocab_ab h, of "()" 0 2 "- 1"]
    demo_multinomial_accepts
  have b: "\<exists>s g'. generate demo_env (myrnn (nchars ab_vocab)) ab_vocab () 0 ''a'' 2 (- 1) = Inr (s, g')"
    by blast
  show ?thesis using demo_multinomial_ok build_vocab_ab h demo_multinomial_accepts a b by simp
qed

text \<open>
  Against claim C7 as stated: with the temperature \<open>- 1\<close> \<open>generate\<close> returns a string of
  three characters.
\<close>

theorem generate_negative_temperature:
  "(- 1 :: real) \<le> 0
   \<and> generate demo_env (myrnn 2) ab_vocab () 0 ''a'' 2 (- 1) = Inr (''aab'', 2)"
  by (simp add: demo_generate)

text \<open>
  Claim C1, evaluated on the prime \<open>a\<close> with the vocabulary of the corpus \<open>a\<close>, for any
  library functions: the priming loop runs over all of \<open>range(len(x))\<close>, so it feeds the
  only (and last) character to the cell, and the first pass of the sampling loop feeds
  the same character again.  The weights of the first sample are computed from the
  hidden state \<open>h2\<close> after two steps on that character, not from \<open>h1\<close>.
\<close>

theorem generate_feeds_last_prime_char_twice:
  "generate env (myrnn 1)
     \<lparr>num_to_let = [(0, CHR ''a'')], let_to_num = [(CHR ''a'', 0)], nchars = 1\<rparr>
     p g ''a'' 1 temperature =
     (let h0 = init_hidden (myrnn 1);
          (output1, h1) = gru env p (encoder env p 0) h0;
          (output2, h2) = gru env p (encoder env p 0) h1
      in case multinomial env g [fexp env (fdiv env (decoder env p output2 0) temperature)] of
           Inl e \<Rightarrow> Inl e
         | Inr (sample, g') \<Rightarrow>
             (case dict_get [(0, CHR ''a'')] sample of
                Inl e \<Rightarrow> Inl e
              | Inr pred_char \<Rightarrow> Inr (''a'' @ [pred_char], g')))"
  by (simp add: generate_def generate_from_def dict_get_def prime_step_def sample_step_def
      forward_def myrnn_def Let_def split: prod.splits sum.splits option.splits)

subsection \<open>The trainer\<close>

lemma demo_epoch:
  "run_epoch demo_env (myrnn 2) ab_vocab [0, 1, 0, 1] [1, 0, 1, 0] 2 demo_state =
     Inr \<lparr>st_model = (), st_rng = 2, st_h = [[[0]]], st_cost = 2, st_totcost = 2,
          st_generated = ''aaaa''\<rparr>"
  by (simp add: run_epoch_def train_chunk_def random_chunk_def py_slice_def unroll_step_def
      forward_def myrnn_def demo_env_def demo_state_def ab_vocab_def dict_get_def
      init_hidden_def upt_rec Let_def)

lemma py_slice_in_range:
  assumes "0 \<le> k" and "k + int n \<le> int (length xs)"
  shows "py_slice xs k (k + int n) = take n (drop (nat k) xs)"
  using assms by (auto simp: py_slice_def Let_def min_def)

lemma unroll_step_frame:
  assumes "unroll_step env r voc x y i st = Inr st'"
  shows "st_totcost st' = st_totcost st \<and> st_model st' = st_model st \<and> st_rng st' = st_rng st
       \<and> length (st_generated st') = Suc (length (st_generated st))
       \<and> i < length x
       \<and> st_h st' = snd (gru env (st_model st) (encoder env (st_model st) (x ! i)) (st_h st))"
  using assms
  by (auto simp: unroll_step_def forward_def Let_def split: if_splits sum.splits prod.splits)

lemma unroll_loop_frame:
  assumes "foldE (unroll_step env r voc x y) [0..<n] st = Inr st'"
  shows "st_totcost st' = st_totcost st \<and> st_model st' = st_model st \<and> st_rng st' = st_rng st
       \<and> length (st_generated st') = length (st_generated st) + n
       \<and> n \<le> length x
       \<and> st_h st' = fold (\<lambda>a h. snd (gru env (st_model st) (encoder env (st_model st) a) h))
                        (take n x) (st_h st)"
  using assms
proof (induction n arbitrary: st')
  case 0
  then show ?case by simp
next
  case (Suc n)
  from Suc.prems obtain s1 where
    s1: "foldE (unroll_step env r voc x y) [0..<n] st = Inr s1"
      "unroll_step env r voc x y n s1 = Inr st'"
    by (auto simp: foldE_append split: sum.splits)
  note ih = Suc.IH [OF s1(1)]
  note fr = unroll_step_frame [OF s1(2)]
  from fr have n: "n < length x" by simp
  have "take (Suc n) x = take n x @ [x ! n]" using n by (simp add: take_Suc_conv_app_nth)
  then show ?case using ih fr by simp
qed


lemma random_chunk_valid:
  assumes "randint_ok env" and "0 < chunk_size" and "chunk_size < length X"
    and "length Y = length X"
  shows "\<exists>k g'. randint env g 0 (int (length X) - int chunk_size) = Inr (k, g')
           \<and> 0 \<le> k \<and> k < int (length X) - int chunk_size
           \<and> random_chunk env X Y g chunk_size =
                Inr ((take chunk_size (drop (nat k) X), take chunk_size (drop (nat k) Y)), g')"
proof -
  let ?high = "int (length X) - int chunk_size"
  from assms(3) have pos: "\<not> ?high \<le> 0" by simp
  from assms(1) have c: "case randint env g 0 ?high of
      Inl e \<Rightarrow> e = ValueError \<and> ?high \<le> 0 | Inr (k, g') \<Rightarrow> 0 \<le> k \<and> k < ?high"
    unfolding randint_ok_def by blast
  then obtain k g' where k: "randint env g 0 ?high = Inr (k, g')" "0 \<le> k" "k < ?high"
    using pos by (cases "randint env g 0 ?high") auto
  from k(3) have le: "k + int chunk_size \<le> int (length X)" by simp
  then have le': "k + int chunk_size \<le> int (length Y)" using assms(4) by simp
  have "random_chunk env X Y g chunk_size =
          Inr ((take chunk_size (drop (nat k) X), take chunk_size (drop (nat k) Y)), g')"
    by (simp add: random_chunk_def k(1) py_slice_in_range [OF k(2) le]
        py_slice_in_range [OF k(2) le'])
  then show ?thesis using k by blast
qed

lemma unroll_step_total:
  fixes env :: "('f::{zero,plus}, 'p, 'g) env"
  assumes "argmax_ok env" and "build_vocab rank rawtxt = Inr voc"
    and "i < length x" and "i < length y" and "x ! i < nchars voc"
  shows "\<exists>st'. unroll_step env (myrnn (nchars voc)) voc x y i st = Inr st'"
proof -
  let ?r = "myrnn (nchars voc)"
  from forward_in_range [of "x ! i" ?r env "st_model st" "st_h st"] assms(5) obtain out h' where
    f: "forward env ?r (st_model st) (x ! i) (st_h st) = Inr (out, h')" "length out = nchars voc"
    by (auto simp: myrnn_def)
  from f(2) assms(5) have "out \<noteq> []" by auto
  with assms(1) have "argmax env out < nchars voc" using f(2) by (auto simp: argmax_ok_def)
  from decode_in_range [OF assms(2) this] obtain c where
    "dict_get (num_to_let voc) (argmax env out) = Inr c" by blast
  then show ?thesis using f(1) assms(3,4) by (simp add: unroll_step_def)
qed

lemma train_chunk_frame:
  assumes "train_chunk env r voc X Y chunk_size st = Inr st'"
  shows "st_totcost st' = st_totcost st + st_cost st'
       \<and> length (st_generated st') = length (st_generated st) + chunk_size"
proof -
  let ?st1 = "st\<lparr>st_h := init_hidden r, st_cost := 0\<rparr>"
  from assms obtain x y g' st2 where
    u: "foldE (unroll_step env r voc x y) [0..<chunk_size] (?st1\<lparr>st_rng := g'\<rparr>) = Inr st2"
    and st': "st' = st2\<lparr>st_model := optimize env (st_model st2) (init_hidden r) x y,
                        st_totcost := st_totcost st2 + st_cost st2\<rparr>"
    by (auto simp: train_chunk_def Let_def split: sum.splits prod.splits if_splits)
  from unroll_loop_frame [OF u] show ?thesis by (simp add: st')
qed

lemma train_chunk_hidden:
  assumes "train_chunk env r voc X Y chunk_size st = Inr st'"
  shows "\<exists>x y g'. random_chunk env X Y (st_rng st) chunk_size = Inr ((x, y), g')
           \<and> chunk_size \<le> length x
           \<and> st_h st' =
               fold (\<lambda>a h. snd (gru env (st_model st) (encoder env (st_model st) a) h))
                 (take chunk_size x)
                 (replicate (n_layers r) [replicate (hidden_size r) 0])"
proof -
  let ?st1 = "st\<lparr>st_h := init_hidden r, st_cost := 0\<rparr>"
  from assms obtain x y g' st2 where
    rc: "random_chunk env X Y (st_rng st) chunk_size = Inr ((x, y), g')"
    and u: "foldE (unroll_step env r voc x y) [0..<chunk_size] (?st1\<lparr>st_rng := g'\<rparr>) = Inr st2"
    and st': "st' = st2\<lparr>st_model := optimize env (st_model st2) (init_hidden r) x y,
                        st_totcost := st_totcost st2 + st_cost st2\<rparr>"
    by (auto simp: train_chunk_def Let_def split: sum.splits prod.splits if_splits)
  from unroll_loop_frame [OF u] have "chunk_size \<le> length x"
    and "st_h st' = fold (\<lambda>a h. snd (gru env (st_model st) (encoder env (st_model st) a) h))
                      (take chunk_size x) (init_hidden r)"
    by (simp_all add: st')
  then show ?thesis using rc by (auto simp: init_hidden_def)
qed

lemma train_chunk_forgets_hidden:
  "train_chunk env r voc X Y chunk_size (st\<lparr>st_h := h', st_cost := c'\<rparr>) =
   train_chunk env r voc X Y chunk_size st"
  by (simp add: train_chunk_def)

lemma train_chunk_total:
  fixes env :: "('f::{zero,plus}, 'p, 'g) env" and voc :: "'c vocab"
  assumes "randint_ok env" and "argmax_ok env" and "build_vocab rank rawtxt = Inr voc"
    and "0 < chunk_size" and "chunk_size < length X" and "length Y = length X"
    and "\<forall>a \<in> set X. a < nchars voc"
  shows "\<exists>st'. train_chunk env (myrnn (nchars voc)) voc X Y chunk_size st = Inr st'"
proof -
  let ?r = "myrnn (nchars voc)"
  let ?st1 = "st\<lparr>st_h := init_hidden ?r, st_cost := 0\<rparr>"
  from random_chunk_valid [OF assms(1,4,5,6), of "st_rng st"] obtain k g' where
    k: "0 \<le> k" "k < int (length X) - int chunk_size"
    and rc: "random_chunk env X Y (st_rng st) chunk_size =
               Inr ((take chunk_size (drop (nat k) X), take chunk_size (drop (nat k) Y)), g')"
    by blast
  let ?x = "take chunk_size (drop (nat k) X)"
  let ?y = "take chunk_size (drop (nat k) Y)"
  from k have lx: "length ?x = chunk_size" by auto
  from k assms(6) have ly: "length ?y = chunk_size" by auto
  have inx: "\<forall>a \<in> set ?x. a < nchars voc"
    using assms(7) by (meson in_set_dropD in_set_takeD)
  have "\<exists>st2. foldE (unroll_step env ?r voc ?x ?y) [0..<chunk_size] (?st1\<lparr>st_rng := g'\<rparr>) = Inr st2
          \<and> True"
  proof (rule foldE_total [where P = "\<lambda>_. True"])
    fix i and s :: "('f, 'c, 'p, 'g) tstate"
    assume "i \<in> set [0..<chunk_size]"
    then have i: "i < length ?x" "i < length ?y" using lx ly by simp_all
    then have "?x ! i < nchars voc" using inx nth_mem by blast
    from unroll_step_total [OF assms(2,3) i this]
    show "\<exists>s'. unroll_step env ?r voc ?x ?y i s = Inr s' \<and> True" by simp
  qed simp
  then obtain st2 where
    "foldE (unroll_step env ?r voc ?x ?y) [0..<chunk_size] (?st1\<lparr>st_rng := g'\<rparr>) = Inr st2"
    by blast
  then show ?thesis using rc assms(4) by (simp add: train_chunk_def)
qed


lemma train_chunk_forgets_h:
  "train_chunk env r voc X Y chunk_size (st\<lparr>st_h := h'\<rparr>) =
   train_chunk env r voc X Y chunk_size st"
  by (simp add: train_chunk_def)

lemma chunk_loop_forgets_h:
  assumes "is \<noteq> []"
  shows "foldE (\<lambda>_. train_chunk env r voc X Y chunk_size) is (st\<lparr>st_h := h'\<rparr>) =
         foldE (\<lambda>_. train_chunk env r voc X Y chunk_size) is st"
  using assms by (cases "is") (simp_all add: train_chunk_forgets_h)

lemma run_epoch_forgets_h:
  "run_epoch env r voc X Y chunk_size (st\<lparr>st_h := h'\<rparr>) =
   run_epoch env r voc X Y chunk_size st"
proof (cases "length X div chunk_size = 0")
  case True
  then show ?thesis by (simp add: run_epoch_def)
next
  case False
  let ?st0 = "st\<lparr>st_totcost := 0, st_generated := []\<rparr>"
  have eq: "st\<lparr>st_h := h'\<rparr>\<lparr>st_totcost := 0, st_generated := []\<rparr> = ?st0\<lparr>st_h := h'\<rparr>"
    by simp
  from False have "[0..<length X div chunk_size] \<noteq> []" by simp
  from chunk_loop_forgets_h [OF this, where st = ?st0 and h' = h']
  show ?thesis unfolding run_epoch_def Let_def eq by simp
qed

lemma chunk_loop_sum:
  assumes "foldE (\<lambda>_. train_chunk env r voc X Y chunk_size) is st = Inr st'"
  shows "length (chunk_losses env r voc X Y chunk_size (length is) st) = length is
       \<and> st_totcost st' =
           foldl (+) (st_totcost st) (chunk_losses env r voc X Y chunk_size (length is) st)
       \<and> length (st_generated st') = length (st_generated st) + length is * chunk_size"
  using assms
proof (induction "is" arbitrary: st)
  case Nil
  then show ?case by simp
next
  case (Cons i "is")
  from Cons.prems obtain s1 where
    s1: "train_chunk env r voc X Y chunk_size st = Inr s1"
      "foldE (\<lambda>_. train_chunk env r voc X Y chunk_size) is s1 = Inr st'"
    by (auto split: sum.splits)
  from train_chunk_frame [OF s1(1)] Cons.IH [OF s1(2)] s1(1)
  show ?case by (simp add: add.assoc)
qed

lemma run_epoch_Inr:
  assumes "run_epoch env r voc X Y chunk_size st = Inr st'"
  shows "0 < chunk_size \<and> 0 < length X div chunk_size
       \<and> (\<exists>st1. foldE (\<lambda>_. train_chunk env r voc X Y chunk_size)
                   [0..<length X div chunk_size]
                   (st\<lparr>st_totcost := 0, st_generated := []\<rparr>) = Inr st1
              \<and> st' = st1\<lparr>st_totcost := divn env (st_totcost st1) (length X div chunk_size)\<rparr>)"
  using assms
  by (auto simp: run_epoch_def Let_def split: if_splits sum.splits)

lemma chunk_loop_total:
  fixes env :: "('f::{zero,plus}, 'p, 'g) env" and voc :: "'c vocab"
    and st :: "('f, 'c, 'p, 'g) tstate"
  assumes "randint_ok env" and "argmax_ok env" and "build_vocab rank rawtxt = Inr voc"
    and "0 < chunk_size" and "chunk_size < length X" and "length Y = length X"
    and "\<forall>a \<in> set X. a < nchars voc"
  shows "\<exists>st'. foldE (\<lambda>_. train_chunk env (myrnn (nchars voc)) voc X Y chunk_size) is st = Inr st'"
proof -
  have "\<exists>st'. foldE (\<lambda>_. train_chunk env (myrnn (nchars voc)) voc X Y chunk_size) is st = Inr st'
          \<and> True"
  proof (rule foldE_total [where P = "\<lambda>_. True"])
    fix i :: nat and s :: "('f, 'c, 'p, 'g) tstate"
    from train_chunk_total [OF assms, of s]
    show "\<exists>s'. train_chunk env (myrnn (nchars voc)) voc X Y chunk_size s = Inr s' \<and> True"
      by simp
  qed simp
  then show ?thesis by blast
qed

lemma encode_corpus_built:
  assumes "build_vocab rank rawtxt = Inr voc" and "encode_corpus voc rawtxt = Inr (X, Y)"
  shows "length Y = length X \<and> length X = length rawtxt \<and> (\<forall>a \<in> set X. a < nchars voc)"
proof -
  from maparray_built [OF assms(1), of rawtxt] obtain ids where
    ids: "maparray rawtxt (let_to_num voc) = Inr ids" "length ids = length rawtxt"
      "\<forall>a \<in> set ids. a < nchars voc"
    by auto
  with assms(2) have "X = ids \<and> Y = np_roll ids (- 1)" by (auto simp: encode_corpus_def)
  then show ?thesis using ids(2,3) by (simp add: length_np_roll)
qed

lemma run_epoch_total:
  fixes env :: "('f::{zero,plus}, 'p, 'g) env" and voc :: "'c vocab"
    and st :: "('f, 'c, 'p, 'g) tstate"
  assumes "randint_ok env" and "argmax_ok env" and "build_vocab rank rawtxt = Inr voc"
    and "encode_corpus voc rawtxt = Inr (X, Y)"
    and "0 < chunk_size" and "chunk_size < length X"
  shows "\<exists>st'. run_epoch env (myrnn (nchars voc)) voc X Y chunk_size st = Inr st'"
proof -
  from encode_corpus_built [OF assms(3,4)] have
    xy: "length Y = length X" "\<forall>a \<in> set X. a < nchars voc" by simp_all
  from assms(5,6) have n: "0 < length X div chunk_size"
    by (simp add: div_greater_zero_iff)
  from chunk_loop_total [OF assms(1,2,3,5,6) xy,
      of "[0..<length X div chunk_size]" "st\<lparr>st_totcost := 0, st_generated := []\<rparr>"]
  obtain st1 where
    "foldE (\<lambda>_. train_chunk env (myrnn (nchars voc)) voc X Y chunk_size)
       [0..<length X div chunk_size] (st\<lparr>st_totcost := 0, st_generated := []\<rparr>) = Inr st1"
    by blast
  then show ?thesis using assms(5) n by (simp add: run_epoch_def)
qed

lemma init_hidden_zero:
  "length (init_hidden r) = n_layers r
   \<and> (\<forall>l \<in> set (init_hidden r).
         length l = 1 \<and> (\<forall>v \<in> set l. length v = hidden_size r \<and> (\<forall>a \<in> set v. a = 0)))"
  by (auto simp: init_hidden_def)


lemma demo_encode: "encode_corpus ab_vocab ''abab'' = Inr ([0, 1, 0, 1], [1, 0, 1, 0])"
  by (simp add: encode_corpus_def ab_vocab_def dict_get_def np_roll_def)

lemma demo_random_chunk:
  "random_chunk demo_env [0, 1, 0, 1] [1, 0, 1, 0] (1::nat) 2 = Inr (([1, 0], [0, 1]), 2)"
  by (simp add: random_chunk_def demo_env_def py_slice_def)

lemma demo_chunk:
  "train_chunk demo_env (myrnn 2) ab_vocab [0, 1, 0, 1] [1, 0, 1, 0] 2
     (demo_state\<lparr>st_rng := 1\<rparr>) =
     Inr \<lparr>st_model = (), st_rng = 2, st_h = [[[0]]], st_cost = 2, st_totcost = 11,
          st_generated = ''zzaa''\<rparr>"
  by (simp add: train_chunk_def random_chunk_def py_slice_def unroll_step_def
      forward_def myrnn_def demo_env_def demo_state_def ab_vocab_def dict_get_def
      init_hidden_def upt_rec Let_def)

lemma demo_chunk_losses:
  "chunk_losses demo_env (myrnn 2) ab_vocab [0, 1, 0, 1] [1, 0, 1, 0] 2 2
     (demo_state\<lparr>st_totcost := 0, st_generated := []\<rparr>) = [2, 2]"
  by (simp add: numeral_2_eq_2 train_chunk_def random_chunk_def py_slice_def unroll_step_def
      forward_def myrnn_def demo_env_def demo_state_def ab_vocab_def dict_get_def
      init_hidden_def upt_rec Let_def)

subsection \<open>Claims about the trainer\<close>

text \<open>
  Claim C3.  For \<open>0 < chunk_size < len(X)\<close> (and \<open>Y\<close> as long as \<open>X\<close>),
  \<open>random_chunk\<close> takes its offset \<open>k\<close> from the uniform draw
  \<^verbatim>\<open>np.random.randint(0, len(X) - chunk_size)\<close>, so \<open>0 \<le> k < len(X) - chunk_size\<close>, and
  returns the slices of \<open>X\<close> and of \<open>Y\<close> that start at \<open>k\<close>: both have exactly
  \<open>chunk_size\<close> elements, element \<open>i\<close> being \<open>X[k + i]\<close> and \<open>Y[k + i]\<close>.
\<close>

theorem random_chunk_slices:
  assumes "randint_ok env" and "0 < chunk_size" and "chunk_size < length X"
    and "length Y = length X"
  shows "\<exists>k g' x y. randint env g 0 (int (length X) - int chunk_size) = Inr (k, g')
           \<and> 0 \<le> k \<and> k < int (length X) - int chunk_size
           \<and> random_chunk env X Y g chunk_size = Inr ((x, y), g')
           \<and> x = take chunk_size (drop (nat k) X) \<and> y = take chunk_size (drop (nat k) Y)
           \<and> length x = chunk_size \<and> length y = chunk_size
           \<and> (\<forall>i < chunk_size. x ! i = X ! (nat k + i) \<and> y ! i = Y ! (nat k + i))"
proof -
  from random_chunk_valid [OF assms, of g] obtain k g' where
    k: "randint env g 0 (int (length X) - int chunk_size) = Inr (k, g')"
      "0 \<le> k" "k < int (length X) - int chunk_size"
    and rc: "random_chunk env X Y g chunk_size =
               Inr ((take chunk_size (drop (nat k) X), take chunk_size (drop (nat k) Y)), g')"
    by blast
  let ?x = "take chunk_size (drop (nat k) X)"
  let ?y = "take chunk_size (drop (nat k) Y)"
  from k(2,3) have bound: "nat k + chunk_size \<le> length X" by linarith
  then have lx: "length ?x = chunk_size" by simp
  from bound assms(4) have ly: "length ?y = chunk_size" by simp
  have "\<forall>i < chunk_size. ?x ! i = X ! (nat k + i) \<and> ?y ! i = Y ! (nat k + i)"
    using bound assms(4) by simp
  with k rc lx ly show ?thesis by blast
qed

theorem random_chunk_slices_witness:
  "randint_ok demo_env \<and> (0::nat) < 2 \<and> 2 < length [0, 1, 0, 1 :: nat]
   \<and> length [1, 0, 1, 0 :: nat] = length [0, 1, 0, 1 :: nat]
   \<and> random_chunk demo_env [0, 1, 0, 1] [1, 0, 1, 0] (1::nat) 2 = Inr (([1, 0], [0, 1]), 2)
   \<and> (\<exists>k g' x y. randint demo_env (1::nat) 0 (int (length [0, 1, 0, 1 :: nat]) - int 2) = Inr (k, g')
          \<and> random_chunk demo_env [0, 1, 0, 1] [1, 0, 1, 0] (1::nat) 2 = Inr ((x, y), g')
          \<and> length x = 2 \<and> length y = 2)"
proof -
  have h: "(0::nat) < 2" "2 < length [0, 1, 0, 1 :: nat]"
    "length [1, 0, 1, 0 :: nat] = length [0, 1, 0, 1 :: nat]" by simp_all
  from random_chunk_slices [OF demo_randint_ok h, of 1]
  have "\<exists>k g' x y. randint demo_env (1::nat) 0 (int (length [0, 1, 0, 1 :: nat]) - int 2) = Inr (k, g')
          \<and> random_chunk demo_env [0, 1, 0, 1] [1, 0, 1, 0] (1::nat) 2 = Inr ((x, y), g')
          \<and> length x = 2 \<and> length y = 2"
    by blast
  then show ?thesis using demo_randint_ok h demo_random_chunk by blast
qed

text \<open>
  Claim C4.  Whenever an epoch reports a cost, \<open>n = len(X) // chunk_size\<close> is positive,
  exactly \<open>n\<close> chunk bodies were run one after the other (each drawing its own offset
  from the generator state the previous one left), \<open>n * chunk_size\<close> cell steps were
  made, and the reported cost is the sum of the \<open>n\<close> chunk losses, added in that order
  starting from \<open>0\<close>, divided by \<open>n\<close>.  And the epoch does report a cost for
  \<open>0 < chunk_size < len(X)\<close> on the encoded corpus with the model of the notebook, when
  the samplers keep their contracts.
\<close>

theorem epoch_average_cost:
  fixes env :: "('f::{zero,plus}, 'p, 'g) env" and voc :: "'c vocab"
    and st :: "('f, 'c, 'p, 'g) tstate"
  shows "(\<forall>st'. run_epoch env r voc X Y chunk_size st = Inr st' \<longrightarrow>
            (let n = length X div chunk_size;
                 losses = chunk_losses env r voc X Y chunk_size n
                            (st\<lparr>st_totcost := 0, st_generated := []\<rparr>)
             in 0 < n \<and> length losses = n
                \<and> st_totcost st' = divn env (foldl (+) 0 losses) n
                \<and> length (st_generated st') = n * chunk_size))
       \<and> (randint_ok env \<and> argmax_ok env \<and> build_vocab rank rawtxt = Inr voc
            \<and> encode_corpus voc rawtxt = Inr (X, Y) \<and> 0 < chunk_size \<and> chunk_size < length X
            \<and> r = myrnn (nchars voc)
            \<longrightarrow> (\<exists>st'. run_epoch env r voc X Y chunk_size st = Inr st'))"
proof (intro conjI allI impI)
  fix st'
  assume "run_epoch env r voc X Y chunk_size st = Inr st'"
  from run_epoch_Inr [OF this] obtain st1 where
    n: "0 < length X div chunk_size"
    and loop: "foldE (\<lambda>_. train_chunk env r voc X Y chunk_size) [0..<length X div chunk_size]
                 (st\<lparr>st_totcost := 0, st_generated := []\<rparr>) = Inr st1"
    and st': "st' = st1\<lparr>st_totcost := divn env (st_totcost st1) (length X div chunk_size)\<rparr>"
    by blast
  from chunk_loop_sum [OF loop] n st'
  show "let n = length X div chunk_size;
            losses = chunk_losses env r voc X Y chunk_size n
                       (st\<lparr>st_totcost := 0, st_generated := []\<rparr>)
        in 0 < n \<and> length losses = n
           \<and> st_totcost st' = divn env (foldl (+) 0 losses) n
           \<and> length (st_generated st') = n * chunk_size"
    by (simp add: Let_def)
next
  assume a: "randint_ok env \<and> argmax_ok env \<and> build_vocab rank rawtxt = Inr voc
      \<and> encode_corpus voc rawtxt = Inr (X, Y) \<and> 0 < chunk_size \<and> chunk_size < length X
      \<and> r = myrnn (nchars voc)"
  then have "\<exists>st'. run_epoch env (myrnn (nchars voc)) voc X Y chunk_size st = Inr st'"
    by (intro run_epoch_total [of env rank rawtxt voc X Y chunk_size st]) simp_all
  with a show "\<exists>st'. run_epoch env r voc X Y chunk_size st = Inr st'" by simp
qed

theorem epoch_average_cost_witness:
  "randint_ok demo_env \<and> argmax_ok demo_env
   \<and> build_vocab (\<lambda>c::char. 0) ''abab'' = Inr ab_vocab
   \<and> encode_corpus ab_vocab ''abab'' = Inr ([0, 1, 0, 1], [1, 0, 1, 0])
   \<and> (0::nat) < 2 \<and> 2 < length [0, 1, 0, 1 :: nat]
   \<and> run_epoch demo_env (myrnn 2) ab_vocab [0, 1, 0, 1] [1, 0, 1, 0] 2 demo_state =
       Inr \<lparr>st_model = (), st_rng = 2, st_h = [[[0]]], st_cost = 2, st_totcost = 2,
            st_generated = ''aaaa''\<rparr>
   \<and> chunk_losses demo_env (myrnn 2) ab_vocab [0, 1, 0, 1] [1, 0, 1, 0] 2 2
       (demo_state\<lparr>st_totcost := 0, st_generated := []\<rparr>) = [2, 2]
   \<and> (2::real) = divn demo_env (foldl (+) 0 [2, 2]) 2
   \<and> length ''aaaa'' = 2 * 2"
proof -
  let ?S = "\<lparr>st_model = (), st_rng = 2::nat, st_h = [[[0::real]]], st_cost = 2::real,
             st_totcost = 2::real, st_generated = ''aaaa''\<rparr>"
  from epoch_average_cost [of demo_env "myrnn 2" ab_vocab "[0, 1, 0, 1]" "[1, 0, 1, 0]" 2
      demo_state] demo_epoch
  have "let n = length [0, 1, 0, 1 :: nat] div 2;
            losses = chunk_losses demo_env (myrnn 2) ab_vocab [0, 1, 0, 1] [1, 0, 1, 0] 2 n
                       (demo_state\<lparr>st_totcost := 0, st_generated := []\<rparr>)
        in 0 < n \<and> length losses = n
           \<and> st_totcost ?S = divn demo_env (foldl (+) 0 losses) n
           \<and> length (st_generated ?S) = n * 2"
    by blast
  moreover have "length [0, 1, 0, 1 :: nat] div 2 = 2" by simp
  ultimately have "st_totcost ?S = divn demo_env (foldl (+) 0 [2, 2]) 2
      \<and> length (st_generated ?S) = 2 * 2"
    by (simp only: Let_def demo_chunk_losses)
  then have "(2::real) = divn demo_env (foldl (+) 0 [2, 2]) 2 \<and> length ''aaaa'' = 2 * 2"
    by (simp only: tstate.simps)
  then show ?thesis
    using demo_randint_ok demo_argmax_ok build_vocab_ab demo_encode demo_epoch demo_chunk_losses
    by simp
qed

text \<open>
  Claim C5.  \<open>init_hidden\<close> is the tensor of shape \<open>(n_layers, 1, hidden_size)\<close> whose
  entries are all \<open>0\<close>.  A training chunk and an epoch give the same result whatever
  hidden state the previous chunk left in \<open>h\<close>; the hidden state at the end of a chunk is
  the cell folded over the chunk from the zero tensor.  \<open>generate\<close> is the generation
  that starts from the zero tensor.
\<close>

theorem hidden_state_fresh:
  fixes env :: "('f::{zero,plus}, 'p, 'g) env" and voc :: "'c vocab"
    and st :: "('f, 'c, 'p, 'g) tstate"
  shows "length (init_hidden r :: 'f hidden) = n_layers r
       \<and> (\<forall>l \<in> set (init_hidden r :: 'f hidden).
             length l = 1 \<and> (\<forall>v \<in> set l. length v = hidden_size r \<and> (\<forall>a \<in> set v. a = 0)))
       \<and> (\<forall>h'. train_chunk env r voc X Y chunk_size (st\<lparr>st_h := h'\<rparr>) =
                train_chunk env r voc X Y chunk_size st)
       \<and> (\<forall>h'. run_epoch env r voc X Y chunk_size (st\<lparr>st_h := h'\<rparr>) =
                run_epoch env r voc X Y chunk_size st)
       \<and> (\<forall>st'. train_chunk env r voc X Y chunk_size st = Inr st' \<longrightarrow>
             (\<exists>x y g'. random_chunk env X Y (st_rng st) chunk_size = Inr ((x, y), g')
                \<and> st_h st' =
                    fold (\<lambda>a h. snd (gru env (st_model st) (encoder env (st_model st) a) h))
                      (take chunk_size x)
                      (replicate (n_layers r) [replicate (hidden_size r) 0])))
       \<and> generate env r voc p g prime_str str_len temperature =
           generate_from env r voc p (replicate (n_layers r) [replicate (hidden_size r) 0])
             g prime_str str_len temperature"
proof (intro conjI allI impI)
  show "length (init_hidden r :: 'f hidden) = n_layers r"
    using init_hidden_zero [of r] by blast
  show "\<forall>l \<in> set (init_hidden r :: 'f hidden).
          length l = 1 \<and> (\<forall>v \<in> set l. length v = hidden_size r \<and> (\<forall>a \<in> set v. a = 0))"
    using init_hidden_zero [of r] by blast
  show "train_chunk env r voc X Y chunk_size (st\<lparr>st_h := h'\<rparr>) =
        train_chunk env r voc X Y chunk_size st" for h'
    by (rule train_chunk_forgets_h)
  show "run_epoch env r voc X Y chunk_size (st\<lparr>st_h := h'\<rparr>) =
        run_epoch env r voc X Y chunk_size st" for h'
    by (rule run_epoch_forgets_h)
  show "\<exists>x y g'. random_chunk env X Y (st_rng st) chunk_size = Inr ((x, y), g')
          \<and> st_h st' =
              fold (\<lambda>a h. snd (gru env (st_model st) (encoder env (st_model st) a) h))
                (take chunk_size x)
                (replicate (n_layers r) [replicate (hidden_size r) 0])"
    if "train_chunk env r voc X Y chunk_size st = Inr st'" for st'
    using train_chunk_hidden [OF that] by blast
  show "generate env r voc p g prime_str str_len temperature =
          generate_from env r voc p (replicate (n_layers r) [replicate (hidden_size r) 0])
            g prime_str str_len temperature"
    by (simp add: generate_def init_hidden_def)
qed

theorem hidden_state_fresh_witness:
  "train_chunk demo_env (myrnn 2) ab_vocab [0, 1, 0, 1] [1, 0, 1, 0] 2
     (demo_state\<lparr>st_rng := 1\<rparr>) =
     Inr \<lparr>st_model = (), st_rng = 2, st_h = [[[0]]], st_cost = 2, st_totcost = 11,
          st_generated = ''zzaa''\<rparr>
   \<and> train_chunk demo_env (myrnn 2) ab_vocab [0, 1, 0, 1] [1, 0, 1, 0] 2
       (demo_state\<lparr>st_rng := 1, st_h := [[[42]]]\<rparr>) =
       Inr \<lparr>st_model = (), st_rng = 2, st_h = [[[0]]], st_cost = 2, st_totcost = 11,
            st_generated = ''zzaa''\<rparr>
   \<and> (\<exists>x y g'. random_chunk demo_env [0, 1, 0, 1] [1, 0, 1, 0] (1::nat) 2 = Inr ((x, y), g')
          \<and> [[[0::real]]] =
              fold (\<lambda>a h. snd (gru demo_env () (encoder demo_env () a) h)) (take 2 x)
                (replicate 1 [replicate 512 0]))
   \<and> (init_hidden (myrnn 2) :: real hidden) = [replicate 512 0] # []"
proof -
  let ?S = "\<lparr>st_model = (), st_rng = 2::nat, st_h = [[[0::real]]], st_cost = 2::real,
             st_totcost = 11::real, st_generated = ''zzaa''\<rparr>"
  note t = hidden_state_fresh [of "myrnn 2" demo_env ab_vocab "[0, 1, 0, 1]" "[1, 0, 1, 0]" 2
      "demo_state\<lparr>st_rng := 1\<rparr>"]
  from t have "train_chunk demo_env (myrnn 2) ab_vocab [0, 1, 0, 1] [1, 0, 1, 0] 2
       (demo_state\<lparr>st_rng := 1\<rparr>\<lparr>st_h := [[[42]]]\<rparr>) =
     train_chunk demo_env (myrnn 2) ab_vocab [0, 1, 0, 1] [1, 0, 1, 0] 2
       (demo_state\<lparr>st_rng := 1\<rparr>)"
    by blast
  then have a: "train_chunk demo_env (myrnn 2) ab_vocab [0, 1, 0, 1] [1, 0, 1, 0] 2
       (demo_state\<lparr>st_rng := 1, st_h := [[[42]]]\<rparr>) = Inr ?S"
    by (simp only: demo_chunk)
  from t demo_chunk
  have "\<exists>x y g'. random_chunk demo_env [0, 1, 0, 1] [1, 0, 1, 0]
            (st_rng (demo_state\<lparr>st_rng := 1\<rparr>)) 2 = Inr ((x, y), g')
          \<and> st_h ?S =
              fold (\<lambda>a h. snd (gru demo_env (st_model (demo_state\<lparr>st_rng := 1\<rparr>))
                                  (encoder demo_env (st_model (demo_state\<lparr>st_rng := 1\<rparr>)) a) h))
                (take 2 x)
                (replicate (n_layers (myrnn 2)) [replicate (hidden_size (myrnn 2)) 0])"
    by blast
  then have b: "\<exists>x y g'. random_chunk demo_env [0, 1, 0, 1] [1, 0, 1, 0] (1::nat) 2 = Inr ((x, y), g')
          \<and> [[[0::real]]] =
              fold (\<lambda>a h. snd (gru demo_env () (encoder demo_env () a) h)) (take 2 x)
                (replicate 1 [replicate 512 0])"
    by (simp add: myrnn_def)
  have c: "(init_hidden (myrnn 2) :: real hidden) = [replicate 512 0] # []"
    by (simp add: init_hidden_def myrnn_def)
  show ?thesis using demo_chunk a b c by blast
qed

end
